theory Spec2Isabelle
  imports Complex_Main "HOL-Library.Sublist" "HOL-Library.Log_Nat"
begin

section \<open>Text primitives of the Python runtime\<close>

text \<open>
  Python strings are modelled as \<^typ>\<open>string\<close>: a list of characters, each character a
  code point in the range 0..255.  \<open>len\<close> is \<^const>\<open>length\<close>.
\<close>

definition nl :: char where
  "nl = CHR 0x0A"

text \<open>\<open>str.isspace\<close> on one character, which is also the class \<open>\s\<close> of the \<open>re\<close> module.\<close>

definition isspace :: "char \<Rightarrow> bool" where
  "isspace c = (let n = (of_char c :: nat) in
     (9 \<le> n \<and> n \<le> 13) \<or> (28 \<le> n \<and> n \<le> 32) \<or> n = 133 \<or> n = 160)"

definition lstrip :: "string \<Rightarrow> string" where
  "lstrip s = dropWhile isspace s"

definition rstrip :: "string \<Rightarrow> string" where
  "rstrip s = rev (dropWhile isspace (rev s))"

definition strip :: "string \<Rightarrow> string" where
  "strip s = rstrip (lstrip s)"

text \<open>\<open>utils.estimate_tokens\<close>: \<open>len(text) // 4\<close>.\<close>

definition estimate_tokens :: "string \<Rightarrow> int" where
  "estimate_tokens text = int (length text) div 4"

section \<open>chunker.py\<close>

text \<open>
  \<open>re.split(r"(?=^## )", s, flags=re.MULTILINE)\<close> and the same with \<open>"# "\<close>: the pattern
  is a lookahead, so every match is empty; it matches at offset 0 and after every newline,
  where the marker follows.  The pieces keep all the text.  A match at offset 0 gives an
  empty first piece.
\<close>

fun cons_first :: "char \<Rightarrow> string list \<Rightarrow> string list" where
  "cons_first c [] = [[c]]"
| "cons_first c (p # ps) = (c # p) # ps"

fun split_after_nl :: "string \<Rightarrow> string \<Rightarrow> string list" where
  "split_after_nl m [] = [[]]"
| "split_after_nl m (c # cs) =
     (if c = nl \<and> prefix m cs then [c] # split_after_nl m cs
      else cons_first c (split_after_nl m cs))"

definition re_split_heading :: "string \<Rightarrow> string \<Rightarrow> string list" where
  "re_split_heading m s =
     (if prefix m s then [] # split_after_nl m s else split_after_nl m s)"

text \<open>
  \<open>re.split(r"\n\n+", text)\<close>: the leftmost run of two or more newlines is a separator,
  taken whole (the \<open>+\<close> is greedy) and dropped.
\<close>

function re_split_paragraphs :: "string \<Rightarrow> string list" where
  "re_split_paragraphs [] = [[]]"
| "re_split_paragraphs (c # cs) =
     (if c = nl \<and> cs \<noteq> [] \<and> hd cs = nl
      then [] # re_split_paragraphs (dropWhile (\<lambda>x. x = nl) cs)
      else cons_first c (re_split_paragraphs cs))"
  by pat_completeness auto
termination
  by (relation "measure length") (auto simp: length_dropWhile_le less_Suc_eq_le)

text \<open>
  \<open>_merge_sections\<close>: the loop over the sections with its two variables \<open>chunks\<close> and
  \<open>current\<close>, then the code after the loop.
\<close>

fun merge_loop :: "int \<Rightarrow> string list \<Rightarrow> string list \<Rightarrow> string \<Rightarrow> string list \<times> string" where
  "merge_loop max_tokens [] chunks current = (chunks, current)"
| "merge_loop max_tokens (section # sections) chunks current =
     (if strip section = [] then merge_loop max_tokens sections chunks current
      else let combined = current @ section in
        if estimate_tokens combined \<le> max_tokens
        then merge_loop max_tokens sections chunks combined
        else merge_loop max_tokens sections
               (if strip current \<noteq> [] then chunks @ [current] else chunks) section)"

definition merge_sections :: "string list \<Rightarrow> int \<Rightarrow> string list" where
  "merge_sections sections max_tokens =
     (case merge_loop max_tokens sections [] [] of (chunks0, current) \<Rightarrow>
        let chunks = (if strip current \<noteq> [] then chunks0 @ [current] else chunks0) in
        if chunks = [] then (if strip current \<noteq> [] then [current] else [])
        else chunks)"

definition split_by_paragraphs :: "string \<Rightarrow> int \<Rightarrow> string list" where
  "split_by_paragraphs text max_tokens = merge_sections (re_split_paragraphs text) max_tokens"

definition split_by_headings :: "string \<Rightarrow> int \<Rightarrow> string list" where
  "split_by_headings markdown max_tokens =
     (if estimate_tokens markdown \<le> max_tokens then [markdown]
      else
        let sections = re_split_heading ''## '' markdown;
            chunks = merge_sections sections max_tokens in
        if list_all (\<lambda>c. estimate_tokens c \<le> max_tokens) chunks then chunks
        else
          let refined = concat (map (\<lambda>chunk.
                  if estimate_tokens chunk > max_tokens
                  then merge_sections (re_split_heading ''# '' chunk) max_tokens
                  else [chunk]) chunks)
          in concat (map (\<lambda>chunk.
                  if estimate_tokens chunk > max_tokens
                  then split_by_paragraphs chunk max_tokens
                  else [chunk]) refined))"

definition needs_chunking :: "string \<Rightarrow> int \<Rightarrow> bool" where
  "needs_chunking content max_input_tokens =
     (let available = max_input_tokens - 10000 in estimate_tokens content > available)"

definition chunk_content :: "string \<Rightarrow> int \<Rightarrow> string list" where
  "chunk_content content max_input_tokens =
     (let available = max_input_tokens - 10000 in
      if estimate_tokens content \<le> available then [content]
      else split_by_headings content available)"

text \<open>
  Putting a list of chunks back on the text, ignoring whitespace at the chunk boundaries:
  the text is the chunks in order, each without its leading and trailing whitespace, with
  only whitespace before, between and after them.
\<close>

fun reassembles :: "string list \<Rightarrow> string \<Rightarrow> bool" where
  "reassembles [] s = list_all isspace s"
| "reassembles (c # cs) s =
     (let s' = lstrip s; c' = strip c in
      prefix c' s' \<and> reassembles cs (drop (length c') s'))"

section \<open>generators/base.py: the output sanitizer\<close>

text \<open>\<open>str.lower\<close> on one character of the range 0..255, and on a string.\<close>

definition lower_char :: "char \<Rightarrow> char" where
  "lower_char c = (let n = (of_char c :: nat) in
     if (65 \<le> n \<and> n \<le> 90) \<or> (192 \<le> n \<and> n \<le> 222 \<and> n \<noteq> 215)
     then char_of (n + 32) else c)"

definition lower :: "string \<Rightarrow> string" where
  "lower s = map lower_char s"

text \<open>The operator \<open>sub in s\<close> on strings.\<close>

fun contains :: "string \<Rightarrow> string \<Rightarrow> bool" where
  "contains sub [] = (sub = [])"
| "contains sub (c # cs) = (prefix sub (c # cs) \<or> contains sub cs)"

text \<open>\<open>text.find("\n")\<close>: the offset of the first newline, \<open>None\<close> for Python's \<open>-1\<close>.\<close>

fun find_nl :: "string \<Rightarrow> nat option" where
  "find_nl [] = None"
| "find_nl (c # cs) = (if c = nl then Some 0 else map_option Suc (find_nl cs))"

text \<open>
  The frontmatter pattern \<open>^---\s*\n.*?\n---\s*\n?\<close> with \<open>re.DOTALL\<close>, matched by
  backtracking as \<open>re\<close> does.  Each function matches the rest of the pattern on the rest
  of the text and returns what follows the match.

  \<open>fm_close\<close> is \<open>.*?\n---\<close>: the lazy \<open>.*?\<close> stops at the first \<open>\n---\<close>.
  \<open>fm_open\<close> is \<open>\s*\n\<close> followed by \<open>fm_close\<close>: the greedy \<open>\s*\<close> first takes a
  whitespace character; only when the rest then fails does it stop there, and the
  character must then be the newline.
  \<open>fm_tail\<close> is \<open>\s*\n?\<close>: all the whitespace, then a newline when there is one.
\<close>

fun fm_close :: "string \<Rightarrow> string option" where
  "fm_close [] = None"
| "fm_close (c # cs) =
     (if prefix (nl # ''---'') (c # cs) then Some (drop 4 (c # cs)) else fm_close cs)"

fun fm_open :: "string \<Rightarrow> string option" where
  "fm_open [] = None"
| "fm_open (c # cs) =
     (if isspace c then
        (case fm_open cs of
           Some r \<Rightarrow> Some r
         | None \<Rightarrow> if c = nl then fm_close cs else None)
      else None)"

definition fm_tail :: "string \<Rightarrow> string" where
  "fm_tail s = (let r = dropWhile isspace s in
     case r of [] \<Rightarrow> [] | c # cs \<Rightarrow> if c = nl then cs else r)"

text \<open>
  \<open>re.sub(pattern, "", text, count=1, flags=re.DOTALL)\<close>: without \<open>re.MULTILINE\<close> the
  anchor holds at offset 0 only, so the one match that can be replaced starts the text.
\<close>

definition sub_frontmatter :: "string \<Rightarrow> string" where
  "sub_frontmatter text =
     (if prefix ''---'' text then
        (case fm_open (drop 3 text) of
           Some r \<Rightarrow> fm_tail r
         | None \<Rightarrow> text)
      else text)"

text \<open>
  \<open>re.match(r"^(#)\s+(.+)", text)\<close>, returning group 2.  \<open>dot_plus\<close> is \<open>(.+)\<close>: one or
  more characters other than the newline, as many as there are.  \<open>h1_spaces\<close> is the
  rest of the greedy \<open>\s+\<close> after its first character, followed by \<open>(.+)\<close>.
\<close>

definition dot_plus :: "string \<Rightarrow> string option" where
  "dot_plus s = (let g = takeWhile (\<lambda>c. c \<noteq> nl) s in if g = [] then None else Some g)"

fun h1_spaces :: "string \<Rightarrow> string option" where
  "h1_spaces [] = dot_plus []"
| "h1_spaces (c # cs) =
     (if isspace c then
        (case h1_spaces cs of Some g \<Rightarrow> Some g | None \<Rightarrow> dot_plus (c # cs))
      else dot_plus (c # cs))"

fun h1_match :: "string \<Rightarrow> string option" where
  "h1_match (c # c' # cs) = (if c = CHR ''#'' \<and> isspace c' then h1_spaces cs else None)"
| "h1_match _ = None"

text \<open>\<open>re.sub(r"\n{4,}", "\n\n\n", text)\<close>: every run of four or more newlines becomes three.\<close>

function collapse_newlines :: "string \<Rightarrow> string" where
  "collapse_newlines [] = []"
| "collapse_newlines (c # cs) =
     (if c = nl \<and> 3 \<le> length (takeWhile (\<lambda>x. x = nl) cs)
      then nl # nl # nl # collapse_newlines (dropWhile (\<lambda>x. x = nl) cs)
      else c # collapse_newlines cs)"
  by pat_completeness auto
termination
  by (relation "measure length") (auto simp: length_dropWhile_le less_Suc_eq_le)

text \<open>\<open>text.split("\n")\<close> and \<open>sep.join(parts)\<close>.\<close>

fun split_lines :: "string \<Rightarrow> string list" where
  "split_lines [] = [[]]"
| "split_lines (c # cs) =
     (if c = nl then [] # split_lines cs else cons_first c (split_lines cs))"

fun join :: "string \<Rightarrow> string list \<Rightarrow> string" where
  "join sep [] = []"
| "join sep [x] = x"
| "join sep (x # y # ys) = x @ sep @ join sep (y # ys)"

definition rstrip_lines :: "string \<Rightarrow> string" where
  "rstrip_lines text = join [nl] (map rstrip (split_lines text))"

text \<open>
  The test of \<open>_clean_output\<close> on the first line: a level-1 heading that repeats the title.
  \<open>duplicate_heading\<close> is the condition of the inner \<open>if\<close>, on group 2 of the match.
\<close>

definition duplicate_heading :: "string \<Rightarrow> string \<Rightarrow> string \<Rightarrow> bool" where
  "duplicate_heading note_type title g =
     (let heading_text = strip g;
          title_normalized = strip (lower title);
          heading_normalized = strip (lower heading_text)
      in heading_normalized = title_normalized
         \<or> prefix heading_normalized title_normalized
         \<or> prefix title_normalized heading_normalized
         \<or> contains note_type heading_normalized)"

definition drop_heading :: "string \<Rightarrow> string \<Rightarrow> string \<Rightarrow> string" where
  "drop_heading note_type title text =
     (case h1_match text of
        Some g \<Rightarrow>
          if duplicate_heading note_type title g
          then (case find_nl text of
                  Some first_line_end \<Rightarrow> strip (drop (first_line_end + 1) text)
                | None \<Rightarrow> [])
          else text
      | None \<Rightarrow> text)"

text \<open>\<open>NoteGenerator._clean_output\<close>; \<open>note_type\<close> is the property of the generator.\<close>

definition clean_output :: "string \<Rightarrow> string \<Rightarrow> string \<Rightarrow> string" where
  "clean_output note_type text title =
     (if text = [] then text
      else
        let text1 = strip text;
            text2 = strip (sub_frontmatter text1);
            text3 = drop_heading note_type title text2;
            text4 = collapse_newlines text3;
            text5 = rstrip_lines text4
        in strip text5)"

text \<open>
  Two properties of a text, used to state what the last steps of \<open>_clean_output\<close> leave
  behind.  \<open>blank_rest s\<close>: up to its first newline, \<open>s\<close> is whitespace only.
  \<open>no_trailing_space s\<close>: no line of \<open>s\<close> ends in whitespace.
\<close>

definition blank_rest :: "string \<Rightarrow> bool" where
  "blank_rest s = list_all isspace (takeWhile (\<lambda>c. c \<noteq> nl) s)"

fun no_trailing_space :: "string \<Rightarrow> bool" where
  "no_trailing_space [] = True"
| "no_trailing_space (c # s) =
     ((c = nl \<or> \<not> isspace c \<or> \<not> blank_rest s) \<and> no_trailing_space s)"

section \<open>The generation service\<close>

text \<open>
  \<open>LLMProvider\<close> is an abstract class: \<open>generate\<close> and the two limits.  A call is the
  triple of its arguments.  The service is outside the program, so its reply is a parameter:
  \<open>respond\<close> gives the reply to a call after the calls made before it, \<open>None\<close> when
  \<open>generate\<close> raises \<open>LLMError\<close>.  Every function that calls the service takes the
  list of the calls made so far and returns it extended.
\<close>

datatype error = LLMError | IndexError

type_synonym call = "string \<times> string \<times> int"

record llm_provider =
  respond :: "call list \<Rightarrow> call \<Rightarrow> string option"
  max_input_tokens :: int
  default_max_output_tokens :: int

type_synonym 'a gen = "call list \<Rightarrow> (error + 'a) \<times> call list"

definition generate :: "llm_provider \<Rightarrow> call \<Rightarrow> string gen" where
  "generate llm c hist =
     (case respond llm hist c of
        None \<Rightarrow> (Inl LLMError, hist @ [c])
      | Some r \<Rightarrow> (Inr r, hist @ [c]))"

section \<open>generators/base.py: fitting, map and reduce\<close>

text \<open>
  The texts of the prompts are data of a generator; they are parameters here.  The field
  names are the method names of \<open>NoteGenerator\<close>.  \<open>_max_output_tokens\<close> is the
  provider's \<open>default_max_output_tokens\<close>.
\<close>

record templates =
  system_prompt :: string
  user_prompt :: "string \<Rightarrow> string \<Rightarrow> string \<Rightarrow> string"
  reduce_system_prompt :: string
  reduce_user_prompt :: "string \<Rightarrow> string \<Rightarrow> string"

record scraped_content =
  url :: string
  title :: string
  markdown :: string

text \<open>\<open>s.rfind(sub)\<close>: the highest offset where \<open>sub\<close> occurs, \<open>-1\<close> when there is none.\<close>

definition rfind :: "string \<Rightarrow> string \<Rightarrow> int" where
  "rfind s sub =
     (case filter (\<lambda>i. prefix sub (drop i s)) (rev [0..<Suc (length s)]) of
        [] \<Rightarrow> - 1
      | i # _ \<Rightarrow> int i)"

definition truncation_marker :: string where
  "truncation_marker = [nl, nl] @ ''[Content truncated to fit context window]''"

text \<open>\<open>available\<close> of \<open>_fit_content_to_context\<close>, before and after the minimum floor.\<close>

definition raw_available :: "llm_provider \<Rightarrow> string list \<Rightarrow> int" where
  "raw_available llm other_parts =
     (let overhead = 10000;
          other_tokens = sum_list (map estimate_tokens other_parts)
      in max_input_tokens llm - overhead - other_tokens)"

definition fit_available :: "llm_provider \<Rightarrow> string list \<Rightarrow> int" where
  "fit_available llm other_parts =
     (let available = raw_available llm other_parts
      in if available \<le> 0 then 10000 else available)"

definition fit_content_to_context :: "llm_provider \<Rightarrow> string \<Rightarrow> string list \<Rightarrow> string" where
  "fit_content_to_context llm content other_parts =
     (let available = fit_available llm other_parts;
          content_tokens = estimate_tokens content
      in if content_tokens \<le> available then content
         else
           let max_chars = available * 4;
               truncated = take (nat max_chars) content;
               last_para = rfind truncated [nl, nl];
               truncated' = (if last_para > max_chars div 2
                             then take (nat last_para) truncated else truncated)
           in truncated' @ truncation_marker)"

text \<open>The base \<open>_generate_body\<close>: one call with the prompts of the generator.\<close>

definition generate_body :: "llm_provider \<Rightarrow> templates \<Rightarrow> string \<Rightarrow> string \<Rightarrow> string \<Rightarrow> string gen" where
  "generate_body llm tpl content ttl u hist =
     generate llm (system_prompt tpl, user_prompt tpl content ttl u, default_max_output_tokens llm) hist"

definition separator :: string where
  "separator = [nl, nl] @ ''---'' @ [nl, nl]"

text \<open>
  One pass of the \<open>for\<close> loop inside the \<open>while\<close> loop of \<open>_reduce_results\<close>: adjacent
  results are merged in pairs by one call each, a last result without a partner is kept.
\<close>

fun reduce_round :: "llm_provider \<Rightarrow> templates \<Rightarrow> string \<Rightarrow> string list \<Rightarrow> string list gen" where
  "reduce_round llm tpl ttl [] hist = (Inr [], hist)"
| "reduce_round llm tpl ttl [x] hist = (Inr [x], hist)"
| "reduce_round llm tpl ttl (x # y # rest) hist =
     (let pair = x @ separator @ y in
      case generate llm (reduce_system_prompt tpl, reduce_user_prompt tpl ttl pair,
                         default_max_output_tokens llm) hist of
        (Inl e, hist') \<Rightarrow> (Inl e, hist')
      | (Inr m, hist') \<Rightarrow>
          (case reduce_round llm tpl ttl rest hist' of
             (Inl e, hist'') \<Rightarrow> (Inl e, hist'')
           | (Inr merged, hist'') \<Rightarrow> (Inr (m # merged), hist'')))"

text \<open>
  A round that runs to its end halves the number of results, rounding up.  The \<open>while\<close>
  loop ends for this reason.
\<close>

lemma reduce_round_length:
  "reduce_round llm tpl ttl rs hist = (Inr merged, hist') \<Longrightarrow>
   length merged = (length rs + 1) div 2"
  by (induction llm tpl ttl rs hist arbitrary: merged hist' rule: reduce_round.induct)
     (auto split: prod.splits sum.splits)

text \<open>
  The \<open>while\<close> loop of \<open>_reduce_results\<close> and the \<open>return partial_results[0]\<close> after it.
\<close>

function hierarchical_reduce :: "llm_provider \<Rightarrow> templates \<Rightarrow> string \<Rightarrow> string list \<Rightarrow> string gen" where
  "hierarchical_reduce llm tpl ttl partial_results hist =
     (if length partial_results > 1 then
        (case reduce_round llm tpl ttl partial_results hist of
           (Inl e, hist') \<Rightarrow> (Inl e, hist')
         | (Inr merged, hist') \<Rightarrow> hierarchical_reduce llm tpl ttl merged hist')
      else
        (case partial_results of
           [] \<Rightarrow> (Inl IndexError, hist)
         | r # _ \<Rightarrow> (Inr r, hist)))"
  by pat_completeness auto
termination
proof (relation "measure (\<lambda>(llm, tpl, ttl, rs, hist). length rs)", goal_cases)
  case 1
  show ?case by simp
next
  case (2 llm tpl ttl partial_results hist x hist' merged)
  then have "length merged = (length partial_results + 1) div 2"
    using reduce_round_length [of llm tpl ttl partial_results hist merged hist'] by simp
  with 2 show ?case by simp
qed

text \<open>
  The number of passes of the \<open>while\<close> loop that run to their end: the same recursion as
  \<open>hierarchical_reduce\<close>, counting instead of returning the result.
\<close>

function hierarchical_rounds :: "llm_provider \<Rightarrow> templates \<Rightarrow> string \<Rightarrow> string list \<Rightarrow> call list \<Rightarrow> nat" where
  "hierarchical_rounds llm tpl ttl partial_results hist =
     (if length partial_results > 1 then
        (case reduce_round llm tpl ttl partial_results hist of
           (Inl e, hist') \<Rightarrow> 0
         | (Inr merged, hist') \<Rightarrow> Suc (hierarchical_rounds llm tpl ttl merged hist'))
      else 0)"
  by pat_completeness auto
termination
proof (relation "measure (\<lambda>(llm, tpl, ttl, rs, hist). length rs)", goal_cases)
  case 1
  show ?case by simp
next
  case (2 llm tpl ttl partial_results hist x hist' merged)
  then have "length merged = (length partial_results + 1) div 2"
    using reduce_round_length [of llm tpl ttl partial_results hist merged hist'] by simp
  with 2 show ?case by simp
qed

definition reduce_results :: "llm_provider \<Rightarrow> templates \<Rightarrow> string list \<Rightarrow> string \<Rightarrow> string gen" where
  "reduce_results llm tpl partial_results ttl hist =
     (let combined = join separator partial_results;
          available = max_input_tokens llm - 10000
      in if estimate_tokens combined \<le> available
         then generate llm (reduce_system_prompt tpl, reduce_user_prompt tpl ttl combined,
                            default_max_output_tokens llm) hist
         else hierarchical_reduce llm tpl ttl partial_results hist)"

text \<open>
  \<open>_generate_from_chunks\<close>.  \<open>self._generate_body\<close> is the method of the subclass, the
  parameter \<open>body\<close>.  \<open>map_chunks\<close> is the loop that fills \<open>partial_results\<close>.
\<close>

fun map_chunks :: "(string \<Rightarrow> string \<Rightarrow> string \<Rightarrow> string gen) \<Rightarrow> scraped_content \<Rightarrow> string list \<Rightarrow> string list gen" where
  "map_chunks body scraped [] hist = (Inr [], hist)"
| "map_chunks body scraped (chunk # chunks) hist =
     (case body chunk (title scraped) (url scraped) hist of
        (Inl e, hist') \<Rightarrow> (Inl e, hist')
      | (Inr result, hist') \<Rightarrow>
          (case map_chunks body scraped chunks hist' of
             (Inl e, hist'') \<Rightarrow> (Inl e, hist'')
           | (Inr results, hist'') \<Rightarrow> (Inr (result # results), hist'')))"

definition generate_from_chunks :: "llm_provider \<Rightarrow> templates \<Rightarrow> (string \<Rightarrow> string \<Rightarrow> string \<Rightarrow> string gen) \<Rightarrow> scraped_content \<Rightarrow> string gen" where
  "generate_from_chunks llm tpl body scraped hist =
     (let chunks = chunk_content (markdown scraped) (max_input_tokens llm) in
      case map_chunks body scraped chunks hist of
        (Inl e, hist') \<Rightarrow> (Inl e, hist')
      | (Inr partial_results, hist') \<Rightarrow>
          if length partial_results = 1 then (Inr (partial_results ! 0), hist')
          else reduce_results llm tpl partial_results (title scraped) hist')"

section \<open>generators/practice.py\<close>

text \<open>A topic of the plan: the dictionary with the keys \<open>name\<close>, \<open>concepts\<close>, \<open>count\<close>.\<close>

record topic =
  name :: string
  concepts :: string
  count :: int

record practice_templates =
  plan_system_prompt :: string
  plan_user_prompt :: "string \<Rightarrow> string \<Rightarrow> string \<Rightarrow> string"
  section_system_prompt :: string
  section_user_prompt :: "string \<Rightarrow> string \<Rightarrow> string \<Rightarrow> topic \<Rightarrow> int \<Rightarrow> string"

text \<open>\<open>str.isdigit\<close> on one character of the range 0..255, and the class \<open>\d\<close> of \<open>re\<close>.\<close>

definition isdigit :: "char \<Rightarrow> bool" where
  "isdigit c = (let n = (of_char c :: nat) in
     (48 \<le> n \<and> n \<le> 57) \<or> n = 178 \<or> n = 179 \<or> n = 185)"

definition re_digit :: "char \<Rightarrow> bool" where
  "re_digit c = (let n = (of_char c :: nat) in 48 \<le> n \<and> n \<le> 57)"

text \<open>\<open>s.find(sub)\<close> and \<open>s.find(sub, start)\<close>, \<open>None\<close> for \<open>-1\<close>.\<close>

fun find_sub :: "string \<Rightarrow> string \<Rightarrow> nat option" where
  "find_sub sub [] = (if sub = [] then Some 0 else None)"
| "find_sub sub (c # cs) =
     (if prefix sub (c # cs) then Some 0 else map_option Suc (find_sub sub cs))"

definition find_from :: "string \<Rightarrow> string \<Rightarrow> nat \<Rightarrow> nat option" where
  "find_from sub s start =
     (if start > length s then None
      else map_option (\<lambda>k. k + start) (find_sub sub (drop start s)))"

text \<open>\<open>s.strip("*")\<close>, and \<open>s.split(".", 1)[-1]\<close>: what follows the first dot, or all of \<open>s\<close>.\<close>

definition strip_stars :: "string \<Rightarrow> string" where
  "strip_stars s =
     rev (dropWhile (\<lambda>c. c = CHR ''*'') (rev (dropWhile (\<lambda>c. c = CHR ''*'') s)))"

definition after_first_dot :: "string \<Rightarrow> string" where
  "after_first_dot s = (case find_sub ''.'' s of None \<Rightarrow> s | Some i \<Rightarrow> drop (i + 1) s)"

text \<open>\<open>int(digits)\<close> on a string of the digits 0 to 9.\<close>

definition int_of_digits :: "string \<Rightarrow> int" where
  "int_of_digits ds = foldl (\<lambda>a c. 10 * a + (int (of_char c) - 48)) 0 ds"

text \<open>
  \<open>re.search(r"\((\d+)\s+questions?", stripped)\<close>, returning \<open>int(group(1))\<close>.
  \<open>count_at\<close> matches at the start of its argument: the parenthesis, the digits, the
  whitespace, then \<open>question\<close>.  Both \<open>\d+\<close> and \<open>\s+\<close> are greedy, and giving back a
  character never helps: the character after a shorter run of digits is a digit, not
  whitespace, and the one after a shorter run of whitespace is whitespace, not \<open>q\<close>.
  The optional \<open>s\<close> changes neither whether there is a match nor group 1.
  \<open>search_count\<close> tries the offsets from the left.
\<close>

definition count_at :: "string \<Rightarrow> int option" where
  "count_at s =
     (case s of
        [] \<Rightarrow> None
      | c # cs \<Rightarrow>
          if c = CHR ''('' then
            let d = takeWhile re_digit cs;
                r = dropWhile re_digit cs;
                w = takeWhile isspace r;
                q = dropWhile isspace r
            in if d \<noteq> [] \<and> w \<noteq> [] \<and> prefix ''question'' q
               then Some (int_of_digits d) else None
          else None)"

fun search_count :: "string \<Rightarrow> int option" where
  "search_count [] = None"
| "search_count (c # cs) =
     (case count_at (c # cs) of Some n \<Rightarrow> Some n | None \<Rightarrow> search_count cs)"

text \<open>Python's truth value of \<open>current_name\<close>, which is \<open>None\<close> or a string.\<close>

definition truthy :: "string option \<Rightarrow> bool" where
  "truthy n = (case n of None \<Rightarrow> False | Some s \<Rightarrow> s \<noteq> [])"

text \<open>
  \<open>PracticeGenerator._parse_topics\<close>.  The state of the loop over the lines is
  \<open>(topics, current_name, current_concepts, current_count)\<close>.
\<close>

type_synonym parse_state = "topic list \<times> string option \<times> string list \<times> int"

definition flush_topic :: "parse_state \<Rightarrow> topic list" where
  "flush_topic st =
     (case st of (topics, current_name, current_concepts, current_count) \<Rightarrow>
        if truthy current_name
        then topics @ [\<lparr>name = the current_name,
                        concepts = join [nl] current_concepts,
                        count = current_count\<rparr>]
        else topics)"

definition parse_topic_line :: "parse_state \<Rightarrow> string \<Rightarrow> parse_state" where
  "parse_topic_line st line =
     (case st of (topics, current_name, current_concepts, current_count) \<Rightarrow>
        let stripped = strip line in
        if stripped \<noteq> [] \<and> isdigit (hd stripped) \<and> contains ''**'' stripped then
          let topics' = flush_topic st;
              start = find_sub ''**'' stripped;
              end = (case start of None \<Rightarrow> find_from ''**'' stripped 1
                     | Some i \<Rightarrow> find_from ''**'' stripped (i + 2));
              current_name' =
                (case (start, end) of
                   (Some i, Some j) \<Rightarrow> take (j - (i + 2)) (drop (i + 2) stripped)
                 | _ \<Rightarrow> strip_stars (strip (after_first_dot stripped)));
              current_count' = (case search_count stripped of Some n \<Rightarrow> n | None \<Rightarrow> 5)
          in (topics', Some current_name', [], current_count')
        else if truthy current_name \<and> prefix ''-'' stripped then
          (topics, current_name, current_concepts @ [stripped], current_count)
        else st)"

definition parse_topics :: "string \<Rightarrow> topic list" where
  "parse_topics plan = flush_topic (foldl parse_topic_line ([], None, [], 5) (split_lines plan))"

text \<open>
  \<open>PracticeGenerator._generate_body\<close>.  \<open>practice_sections\<close> is the loop over the topics
  with its variable \<open>question_number\<close>.
\<close>

definition overhead_buffer :: string where
  "overhead_buffer = concat (replicate 50 ''prompt overhead buffer'')"

fun practice_sections :: "llm_provider \<Rightarrow> practice_templates \<Rightarrow> string \<Rightarrow> string \<Rightarrow> string \<Rightarrow> topic list \<Rightarrow> int \<Rightarrow> string list gen" where
  "practice_sections llm ptpl fitted_content ttl u [] question_number hist = (Inr [], hist)"
| "practice_sections llm ptpl fitted_content ttl u (tp # topics) question_number hist =
     (case generate llm (section_system_prompt ptpl,
                         section_user_prompt ptpl fitted_content ttl u tp question_number,
                         default_max_output_tokens llm) hist of
        (Inl e, hist') \<Rightarrow> (Inl e, hist')
      | (Inr sec, hist') \<Rightarrow>
          (case practice_sections llm ptpl fitted_content ttl u topics
                  (question_number + count tp) hist' of
             (Inl e, hist'') \<Rightarrow> (Inl e, hist'')
           | (Inr all_sections, hist'') \<Rightarrow> (Inr (sec # all_sections), hist'')))"

definition practice_generate_body :: "llm_provider \<Rightarrow> templates \<Rightarrow> practice_templates \<Rightarrow> string \<Rightarrow> string \<Rightarrow> string \<Rightarrow> string gen" where
  "practice_generate_body llm tpl ptpl content ttl u hist =
     (case generate llm (plan_system_prompt ptpl, plan_user_prompt ptpl content ttl u, 3072) hist of
        (Inl e, hist') \<Rightarrow> (Inl e, hist')
      | (Inr plan, hist') \<Rightarrow>
          let topics = parse_topics plan in
          if topics = [] then
            generate llm (system_prompt tpl, user_prompt tpl content ttl u,
                          default_max_output_tokens llm) hist'
          else
            let fitted_content = fit_content_to_context llm content [plan, overhead_buffer] in
            case practice_sections llm ptpl fitted_content ttl u topics 1 hist' of
              (Inl e, hist'') \<Rightarrow> (Inl e, hist'')
            | (Inr all_sections, hist'') \<Rightarrow> (Inr (join [nl, nl] all_sections), hist''))"

section \<open>generators/deep_dive.py\<close>

record outline_section =
  heading :: string
  points :: string

record deep_dive_templates =
  outline_system_prompt :: string
  outline_user_prompt :: "string \<Rightarrow> string \<Rightarrow> string \<Rightarrow> string"
  expand_system_prompt :: string
  expand_user_prompt :: "string \<Rightarrow> string \<Rightarrow> string \<Rightarrow> outline_section \<Rightarrow> string \<Rightarrow> string"

text \<open>
  \<open>DeepDiveGenerator._parse_outline_sections\<close>.  The state of the loop over the lines is
  \<open>(sections, current_heading, current_points)\<close>.
\<close>

type_synonym outline_state = "outline_section list \<times> string option \<times> string list"

definition flush_section :: "outline_state \<Rightarrow> outline_section list" where
  "flush_section st =
     (case st of (sections, current_heading, current_points) \<Rightarrow>
        if truthy current_heading
        then sections @ [\<lparr>heading = the current_heading,
                          points = join [nl] current_points\<rparr>]
        else sections)"

definition parse_outline_line :: "outline_state \<Rightarrow> string \<Rightarrow> outline_state" where
  "parse_outline_line st line =
     (case st of (sections, current_heading, current_points) \<Rightarrow>
        let stripped = strip line in
        if prefix ''## '' stripped \<and> \<not> prefix ''### '' stripped then
          (flush_section st, Some stripped, [])
        else if truthy current_heading then
          (if stripped \<noteq> [] then (sections, current_heading, current_points @ [line])
           else st)
        else st)"

definition parse_outline_sections :: "string \<Rightarrow> outline_section list" where
  "parse_outline_sections outline =
     flush_section (foldl parse_outline_line ([], None, []) (split_lines outline))"

fun expand_sections :: "llm_provider \<Rightarrow> deep_dive_templates \<Rightarrow> string \<Rightarrow> string \<Rightarrow> string \<Rightarrow> string \<Rightarrow> outline_section list \<Rightarrow> string list gen" where
  "expand_sections llm dtpl fitted_content ttl u outline [] hist = (Inr [], hist)"
| "expand_sections llm dtpl fitted_content ttl u outline (sec # sections) hist =
     (case generate llm (expand_system_prompt dtpl,
                         expand_user_prompt dtpl fitted_content ttl u sec outline,
                         default_max_output_tokens llm) hist of
        (Inl e, hist') \<Rightarrow> (Inl e, hist')
      | (Inr section_content, hist') \<Rightarrow>
          (case expand_sections llm dtpl fitted_content ttl u outline sections hist' of
             (Inl e, hist'') \<Rightarrow> (Inl e, hist'')
           | (Inr expanded, hist'') \<Rightarrow> (Inr (section_content # expanded), hist'')))"

definition deep_dive_generate_body :: "llm_provider \<Rightarrow> templates \<Rightarrow> deep_dive_templates \<Rightarrow> string \<Rightarrow> string \<Rightarrow> string \<Rightarrow> string gen" where
  "deep_dive_generate_body llm tpl dtpl content ttl u hist =
     (case generate llm (outline_system_prompt dtpl, outline_user_prompt dtpl content ttl u, 4096) hist of
        (Inl e, hist') \<Rightarrow> (Inl e, hist')
      | (Inr outline, hist') \<Rightarrow>
          let sections = parse_outline_sections outline in
          if sections = [] then
            generate llm (system_prompt tpl, user_prompt tpl content ttl u,
                          default_max_output_tokens llm) hist'
          else
            let fitted_content = fit_content_to_context llm content [outline, overhead_buffer] in
            case expand_sections llm dtpl fitted_content ttl u outline sections hist' of
              (Inl e, hist'') \<Rightarrow> (Inl e, hist'')
            | (Inr expanded_sections, hist'') \<Rightarrow>
                (Inr (join [nl, nl] expanded_sections), hist''))"

section \<open>Lemmas on the text primitives\<close>

lemma isspace_nl [simp]: "isspace nl"
  by (simp add: isspace_def nl_def)

lemma rstrip_Nil [simp]: "rstrip [] = []"
  by (simp add: rstrip_def)

lemma rstrip_snoc: "rstrip (s @ [c]) = (if isspace c then rstrip s else s @ [c])"
  by (simp add: rstrip_def)

lemma rstrip_eq_Nil_iff: "rstrip s = [] \<longleftrightarrow> list_all isspace s"
  by (simp add: rstrip_def dropWhile_eq_Nil_conv list_all_iff)

lemma rstrip_append:
  "rstrip (a @ b) = (if rstrip b = [] then rstrip a else a @ rstrip b)"
proof (induction b rule: rev_induct)
  case Nil
  then show ?case by simp
next
  case (snoc x xs)
  have "rstrip (a @ xs @ [x]) = rstrip ((a @ xs) @ [x])" by simp
  also have "\<dots> = (if isspace x then rstrip (a @ xs) else a @ xs @ [x])"
    by (simp only: rstrip_snoc) simp
  finally show ?case using snoc by (auto simp: rstrip_snoc)
qed

lemma rstrip_Cons:
  "rstrip (c # s) = (if rstrip s = [] then (if isspace c then [] else [c]) else c # rstrip s)"
  using rstrip_append [of "[c]" s] by (simp add: rstrip_def)

lemma rstrip_idem [simp]: "rstrip (rstrip s) = rstrip s"
  by (induction s rule: rev_induct) (auto simp: rstrip_snoc)

lemma lstrip_Nil [simp]: "lstrip [] = []"
  by (simp add: lstrip_def)

lemma lstrip_Cons: "lstrip (c # s) = (if isspace c then lstrip s else c # s)"
  by (simp add: lstrip_def)

lemma lstrip_all_space: "list_all isspace s \<Longrightarrow> lstrip s = []"
  by (simp add: lstrip_def list_all_iff)

lemma lstrip_rstrip: "lstrip (rstrip s) = rstrip (lstrip s)"
proof (induction s)
  case Nil
  then show ?case by simp
next
  case (Cons c s)
  show ?case
  proof (cases "isspace c")
    case True
    show ?thesis
    proof (cases "rstrip s = []")
      case e: True
      then have "lstrip s = []" by (simp add: rstrip_eq_Nil_iff lstrip_all_space)
      with e True show ?thesis by (simp add: rstrip_Cons lstrip_Cons)
    next
      case False
      with True Cons show ?thesis by (simp add: rstrip_Cons lstrip_Cons)
    qed
  next
    case False
    then show ?thesis by (simp add: rstrip_Cons lstrip_Cons)
  qed
qed

lemma lstrip_idem [simp]: "lstrip (lstrip s) = lstrip s"
  by (induction s) (auto simp: lstrip_Cons)

lemma strip_Nil [simp]: "strip [] = []"
  by (simp add: strip_def)

lemma strip_idem [simp]: "strip (strip s) = strip s"
  by (simp add: strip_def lstrip_rstrip)

lemma strip_rstrip [simp]: "strip (rstrip s) = strip s"
  by (simp add: strip_def lstrip_rstrip)

lemma strip_lstrip [simp]: "strip (lstrip s) = strip s"
  by (simp add: strip_def)

lemma strip_append_core:
  "a \<noteq> [] \<Longrightarrow> \<not> isspace (hd a) \<Longrightarrow> \<not> isspace (last a) \<Longrightarrow> strip (a @ b) = a @ rstrip b"
proof -
  assume a: "a \<noteq> []" and h: "\<not> isspace (hd a)" and l: "\<not> isspace (last a)"
  from a h have "lstrip (a @ b) = a @ b" by (cases a) (simp_all add: lstrip_Cons)
  moreover from a l have "rstrip a = a"
    by (cases a rule: rev_cases) (simp_all add: rstrip_snoc)
  ultimately show ?thesis using a by (simp add: strip_def rstrip_append)
qed

lemma rstrip_nl_Cons: "rstrip (nl # r) = (if rstrip r = [] then [] else nl # rstrip r)"
  by (simp add: rstrip_Cons isspace_def nl_def)


lemma collapse_newlines_no_nl:
  "nl \<notin> set h \<Longrightarrow> collapse_newlines (h @ t) = h @ collapse_newlines t"
  by (induction h) auto

lemma collapse_newlines_nl_Cons: "\<exists>u. collapse_newlines (nl # r) = nl # u"
  by simp

lemma split_lines_ne [simp]: "split_lines s \<noteq> []"
  by (induction s) (auto simp: neq_Nil_conv elim!: cons_first.elims)

lemma split_lines_line:
  "nl \<notin> set h \<Longrightarrow> split_lines (h @ nl # u) = h # split_lines u"
  by (induction h) auto

lemma split_lines_no_nl: "nl \<notin> set h \<Longrightarrow> split_lines h = [h]"
  by (induction h) auto

lemma join_Cons: "ls \<noteq> [] \<Longrightarrow> join sep (l # ls) = l @ sep @ join sep ls"
  by (cases ls) auto

lemma rstrip_lines_line:
  "nl \<notin> set h \<Longrightarrow> rstrip_lines (h @ nl # u) = rstrip h @ nl # rstrip_lines u"
  by (simp add: rstrip_lines_def split_lines_line join_Cons)

lemma rstrip_lines_no_nl: "nl \<notin> set h \<Longrightarrow> rstrip_lines h = rstrip h"
  by (simp add: rstrip_lines_def split_lines_no_nl)


lemma rev_upt_split:
  "rev [0..<n] = us @ i # vs \<Longrightarrow> i < n \<and> set us = {Suc i..<n}"
proof (induction n arbitrary: us)
  case 0
  then show ?case by simp
next
  case (Suc n)
  show ?case
  proof (cases us)
    case Nil
    with Suc.prems show ?thesis by simp
  next
    case (Cons u us')
    with Suc.prems have u: "u = n" and r: "rev [0..<n] = us' @ i # vs" by auto
    from Suc.IH [OF r] have "i < n" "set us' = {Suc i..<n}" by simp_all
    with Cons u show ?thesis by auto
  qed
qed

lemma rfind_found:
  assumes "rfind s sub = int i"
  shows "i \<le> length s \<and> prefix sub (drop i s)
         \<and> (\<forall>j. i < j \<and> j \<le> length s \<longrightarrow> \<not> prefix sub (drop j s))"
proof -
  let ?P = "\<lambda>i. prefix sub (drop i s)"
  from assms obtain rest where f: "filter ?P (rev [0..<Suc (length s)]) = i # rest"
    by (auto simp del: upt_Suc simp: rfind_def split: list.splits)
  then obtain us vs where sp: "rev [0..<Suc (length s)] = us @ i # vs"
    and no: "\<forall>u\<in>set us. \<not> ?P u" and pi: "?P i"
    unfolding filter_eq_Cons_iff by blast
  from rev_upt_split [OF sp] have "i < Suc (length s)" "set us = {Suc i..<Suc (length s)}"
    by simp_all
  with no pi show ?thesis by auto
qed

lemma rfind_none:
  assumes "rfind s sub = - 1"
  shows "\<forall>j \<le> length s. \<not> prefix sub (drop j s)"
proof -
  from assms have "filter (\<lambda>i. prefix sub (drop i s)) (rev [0..<Suc (length s)]) = []"
    by (auto simp del: upt_Suc simp: rfind_def split: list.splits)
  then have "\<forall>x \<in> set (rev [0..<Suc (length s)]). \<not> prefix sub (drop x s)"
    by (simp only: filter_empty_conv)
  then show ?thesis by (auto simp del: upt_Suc simp: less_Suc_eq_le)
qed

lemma rfind_ge: "- 1 \<le> rfind s sub"
  by (simp add: rfind_def split: list.splits)



section \<open>Properties of the chunker\<close>

lemma re_split_paragraphs_ne [simp]: "re_split_paragraphs s \<noteq> []"
  by (induction s rule: re_split_paragraphs.induct)
     (auto elim!: cons_first.elims)

lemma hd_cons_first: "ps \<noteq> [] \<Longrightarrow> hd (cons_first c ps) = c # hd ps"
  by (cases ps) simp_all

lemma set_cons_first: "ps \<noteq> [] \<Longrightarrow> set (cons_first c ps) = insert (c # hd ps) (set (tl ps))"
  by (cases ps) simp_all

lemma hd_re_split_paragraphs_prefix: "prefix (hd (re_split_paragraphs s)) s"
  by (induction s rule: re_split_paragraphs.induct)
     (auto simp: hd_cons_first)

lemma paragraph_no_blank_line:
  "x \<in> set (re_split_paragraphs s) \<Longrightarrow> \<not> contains [nl, nl] x"
proof (induction s arbitrary: x rule: re_split_paragraphs.induct)
  case 1
  then show ?case by simp
next
  case (2 c cs)
  show ?case
  proof (cases "c = nl \<and> cs \<noteq> [] \<and> hd cs = nl")
    case True
    with 2 show ?thesis by auto
  next
    case False
    let ?ps = "re_split_paragraphs cs"
    from False "2.prems" have "x = c # hd ?ps \<or> x \<in> set (tl ?ps)"
      by (auto simp: set_cons_first)
    then show ?thesis
    proof
      assume x: "x = c # hd ?ps"
      have "\<not> contains [nl, nl] (hd ?ps)"
        using "2.IH"(2) [OF False] by (simp add: hd_in_set)
      moreover have "\<not> prefix [nl, nl] (c # hd ?ps)"
      proof
        assume "prefix [nl, nl] (c # hd ?ps)"
        then have "c = nl" and "prefix [nl] (hd ?ps)" by simp_all
        with hd_re_split_paragraphs_prefix [of cs] have "prefix [nl] cs"
          using prefix_order.order_trans by blast
        with \<open>c = nl\<close> False show False by (cases cs) auto
      qed
      ultimately show ?thesis using x by simp
    next
      assume "x \<in> set (tl ?ps)"
      then have "x \<in> set ?ps" by (meson list.set_sel(2) re_split_paragraphs_ne)
      then show ?thesis using "2.IH"(2) [OF False] by simp
    qed
  qed
qed

lemma merge_loop_chunks:
  "merge_loop max_tokens secs chunks cur = (chunks', cur') \<Longrightarrow>
   \<forall>x\<in>set chunks. estimate_tokens x \<le> max_tokens \<or> x \<in> S \<Longrightarrow>
   cur = [] \<or> estimate_tokens cur \<le> max_tokens \<or> cur \<in> S \<Longrightarrow>
   set secs \<subseteq> S \<Longrightarrow>
   (\<forall>x\<in>set chunks'. estimate_tokens x \<le> max_tokens \<or> x \<in> S)
     \<and> (cur' = [] \<or> estimate_tokens cur' \<le> max_tokens \<or> cur' \<in> S)"
proof (induction secs arbitrary: chunks cur)
  case Nil
  then show ?case by simp
next
  case (Cons sec secs)
  from Cons.prems(4) have sub: "set secs \<subseteq> S" and sec: "sec \<in> S" by simp_all
  show ?case
  proof (cases "strip sec = []")
    case True
    with Cons.prems(1) have "merge_loop max_tokens secs chunks cur = (chunks', cur')" by simp
    from Cons.IH [OF this Cons.prems(2) Cons.prems(3) sub] show ?thesis .
  next
    case False
    show ?thesis
    proof (cases "estimate_tokens (cur @ sec) \<le> max_tokens")
      case True
      with False Cons.prems(1)
      have "merge_loop max_tokens secs chunks (cur @ sec) = (chunks', cur')"
        by (simp add: Let_def)
      from Cons.IH [OF this Cons.prems(2) _ sub] True show ?thesis by simp
    next
      case b: False
      define chunks2 where "chunks2 = (if strip cur \<noteq> [] then chunks @ [cur] else chunks)"
      from False b Cons.prems(1)
      have e: "merge_loop max_tokens secs chunks2 sec = (chunks', cur')"
        by (simp add: Let_def chunks2_def)
      have "strip cur \<noteq> [] \<Longrightarrow> cur \<noteq> []" by auto
      with Cons.prems(2) Cons.prems(3)
      have q: "\<forall>x\<in>set chunks2. estimate_tokens x \<le> max_tokens \<or> x \<in> S"
        by (auto simp: chunks2_def)
      from Cons.IH [OF e q _ sub] sec show ?thesis by simp
    qed
  qed
qed

lemma merge_sections_chunks:
  assumes "x \<in> set (merge_sections secs max_tokens)"
  shows "estimate_tokens x \<le> max_tokens \<or> x \<in> set secs"
proof -
  obtain chunks0 cur where m: "merge_loop max_tokens secs [] [] = (chunks0, cur)"
    by (cases "merge_loop max_tokens secs [] []")
  from merge_loop_chunks [OF m, of "set secs"]
  have c: "\<forall>x\<in>set chunks0. estimate_tokens x \<le> max_tokens \<or> x \<in> set secs"
    and k: "cur = [] \<or> estimate_tokens cur \<le> max_tokens \<or> cur \<in> set secs"
    by simp_all
  from assms m have "x \<in> set chunks0 \<or> (x = cur \<and> strip cur \<noteq> [])"
    by (auto simp: merge_sections_def Let_def split: if_splits)
  with c k show ?thesis by auto
qed

lemma split_by_paragraphs_chunks:
  assumes "x \<in> set (split_by_paragraphs t max_tokens)"
  shows "estimate_tokens x \<le> max_tokens \<or> \<not> contains [nl, nl] x"
  using merge_sections_chunks [of x "re_split_paragraphs t" max_tokens] assms
    paragraph_no_blank_line [of x t]
  by (auto simp: split_by_paragraphs_def)


text \<open>
  What the chunker keeps, for every text and every budget: the heading splits keep every
  character, and the characters other than whitespace of the chunks, in order, are those
  of the text.
\<close>

lemma concat_cons_first: "ps \<noteq> [] \<Longrightarrow> concat (cons_first c ps) = c # concat ps"
  by (cases ps) simp_all

lemma split_after_nl_ne [simp]: "split_after_nl m s \<noteq> []"
  by (induction s) (auto elim!: cons_first.elims)

lemma concat_split_after_nl: "concat (split_after_nl m s) = s"
  by (induction s) (auto simp: concat_cons_first)

lemma concat_re_split_heading: "concat (re_split_heading m s) = s"
  by (simp add: re_split_heading_def concat_split_after_nl)

lemma filter_dropWhile_nl:
  "filter (\<lambda>c. \<not> isspace c) (dropWhile (\<lambda>x. x = nl) s) = filter (\<lambda>c. \<not> isspace c) s"
  by (induction s) auto

lemma nonspace_re_split_paragraphs:
  "filter (\<lambda>c. \<not> isspace c) (concat (re_split_paragraphs s)) = filter (\<lambda>c. \<not> isspace c) s"
  by (induction s rule: re_split_paragraphs.induct)
     (auto simp: concat_cons_first filter_dropWhile_nl)

lemma strip_eq_Nil_iff: "strip s = [] \<longleftrightarrow> list_all isspace s"
proof
  assume "strip s = []"
  then have "list_all isspace (lstrip s)" by (simp add: strip_def rstrip_eq_Nil_iff)
  then show "list_all isspace s"
    by (induction s) (auto simp: lstrip_Cons split: if_splits)
next
  assume "list_all isspace s"
  then show "strip s = []" by (simp add: strip_def lstrip_all_space)
qed

lemma nonspace_blank: "strip s = [] \<Longrightarrow> filter (\<lambda>c. \<not> isspace c) s = []"
  by (simp add: strip_eq_Nil_iff list_all_iff)

lemma merge_loop_nonspace:
  "merge_loop max_tokens secs chunks cur = (chunks', cur') \<Longrightarrow>
   filter (\<lambda>c. \<not> isspace c) (concat chunks' @ cur')
     = filter (\<lambda>c. \<not> isspace c) (concat chunks @ cur @ concat secs)"
proof (induction secs arbitrary: chunks cur)
  case Nil
  then show ?case by simp
next
  case (Cons sec secs)
  show ?case
  proof (cases "strip sec = []")
    case True
    with Cons.prems have "merge_loop max_tokens secs chunks cur = (chunks', cur')" by simp
    from Cons.IH [OF this] True show ?thesis by (simp add: nonspace_blank)
  next
    case False
    show ?thesis
    proof (cases "estimate_tokens (cur @ sec) \<le> max_tokens")
      case True
      with False Cons.prems
      have "merge_loop max_tokens secs chunks (cur @ sec) = (chunks', cur')"
        by (simp add: Let_def)
      from Cons.IH [OF this] show ?thesis by simp
    next
      case b: False
      define chunks2 where "chunks2 = (if strip cur \<noteq> [] then chunks @ [cur] else chunks)"
      from False b Cons.prems
      have "merge_loop max_tokens secs chunks2 sec = (chunks', cur')"
        by (simp add: Let_def chunks2_def)
      from Cons.IH [OF this]
      have "filter (\<lambda>c. \<not> isspace c) (concat chunks' @ cur')
          = filter (\<lambda>c. \<not> isspace c) (concat chunks2 @ sec @ concat secs)" .
      moreover have "filter (\<lambda>c. \<not> isspace c) (concat chunks2)
          = filter (\<lambda>c. \<not> isspace c) (concat chunks @ cur)"
        by (simp add: chunks2_def nonspace_blank)
      ultimately show ?thesis by simp
    qed
  qed
qed

lemma merge_sections_nonspace:
  "filter (\<lambda>c. \<not> isspace c) (concat (merge_sections secs max_tokens))
     = filter (\<lambda>c. \<not> isspace c) (concat secs)"
proof -
  obtain chunks0 cur where m: "merge_loop max_tokens secs [] [] = (chunks0, cur)"
    by (cases "merge_loop max_tokens secs [] []")
  from merge_loop_nonspace [OF m]
  have "filter (\<lambda>c. \<not> isspace c) (concat chunks0 @ cur)
      = filter (\<lambda>c. \<not> isspace c) (concat secs)" by simp
  moreover have "filter (\<lambda>c. \<not> isspace c) (concat (merge_sections secs max_tokens))
      = filter (\<lambda>c. \<not> isspace c) (concat chunks0 @ cur)"
    using m by (auto simp: merge_sections_def Let_def nonspace_blank)
  ultimately show ?thesis by simp
qed

lemma nonspace_concat_map:
  "(\<And>x. x \<in> set xs \<Longrightarrow>
      filter (\<lambda>c. \<not> isspace c) (concat (f x)) = filter (\<lambda>c. \<not> isspace c) x) \<Longrightarrow>
   filter (\<lambda>c. \<not> isspace c) (concat (concat (map f xs)))
     = filter (\<lambda>c. \<not> isspace c) (concat xs)"
  by (induction xs) simp_all

lemma split_by_headings_keeps_nonspace:
  "filter (\<lambda>c. \<not> isspace c) (concat (split_by_headings md max_tokens))
     = filter (\<lambda>c. \<not> isspace c) md"
proof -
  let ?n = "filter (\<lambda>c. \<not> isspace c)"
  define chunks where "chunks = merge_sections (re_split_heading ''## '' md) max_tokens"
  define refined where "refined = concat (map (\<lambda>chunk.
                  if estimate_tokens chunk > max_tokens
                  then merge_sections (re_split_heading ''# '' chunk) max_tokens
                  else [chunk]) chunks)"
  have c: "?n (concat chunks) = ?n md"
    by (simp add: chunks_def merge_sections_nonspace concat_re_split_heading)
  have r: "?n (concat refined) = ?n (concat chunks)"
    unfolding refined_def
    by (rule nonspace_concat_map) (simp add: merge_sections_nonspace concat_re_split_heading)
  have f: "?n (concat (concat (map (\<lambda>chunk.
                  if estimate_tokens chunk > max_tokens
                  then split_by_paragraphs chunk max_tokens
                  else [chunk]) refined))) = ?n (concat refined)"
    by (rule nonspace_concat_map)
       (simp add: split_by_paragraphs_def merge_sections_nonspace nonspace_re_split_paragraphs)
  show ?thesis
    using c r f
    by (simp add: split_by_headings_def Let_def chunks_def [symmetric] refined_def [symmetric])
qed

text \<open>
  C1 (lossless chunking).  The claim is that the chunks of \<open>split_by_headings\<close>, put
  together in order, give the input back up to whitespace at the chunk boundaries.  On the
  text of three paragraphs \<open>ab\<close>, \<open>cd\<close>, \<open>efgh\<close> separated by blank lines, with a budget
  of one token, the paragraph stage merges the first two paragraphs into the chunk
  \<open>abcd\<close>: the blank line between them is lost inside a chunk, not at a boundary, and the
  chunks no longer reassemble to the input.  (The heading stages do not lose it: see
  \<open>concat_re_split_heading\<close>.)
\<close>

theorem split_by_headings_fuses_paragraphs:
  "split_by_headings (''ab'' @ [nl, nl] @ ''cd'' @ [nl, nl] @ ''efgh'') 1 = [''abcd'', ''efgh'']
   \<and> \<not> reassembles (split_by_headings (''ab'' @ [nl, nl] @ ''cd'' @ [nl, nl] @ ''efgh'') 1)
         (''ab'' @ [nl, nl] @ ''cd'' @ [nl, nl] @ ''efgh'')"
  by code_simp



section \<open>Properties of context fitting\<close>

text \<open>
  C7 (\<open>_fit_content_to_context\<close>).  The allowance is the input limit minus 10000 minus the
  estimates of the other parts, replaced by 10000 when that is not positive.  Content whose
  estimate is within the allowance is returned unchanged.  Otherwise the result is a prefix
  of the content of at most four times the allowance characters, followed by the marker: the
  prefix ends at the last blank line of the first \<open>max_chars\<close> characters when that blank
  line lies past half of \<open>max_chars\<close>, and at \<open>max_chars\<close> otherwise.
\<close>

theorem fit_content_to_context_truncates: 
  "raw_available llm others = max_input_tokens llm - 10000 - sum_list (map estimate_tokens others)
   \<and> fit_available llm others
        = (if raw_available llm others \<le> 0 then 10000 else raw_available llm others)
   \<and> (estimate_tokens content \<le> fit_available llm others \<longrightarrow>
        fit_content_to_context llm content others = content)
   \<and> (fit_available llm others < estimate_tokens content \<longrightarrow>
        (let max_chars = fit_available llm others * 4;
             hard = take (nat max_chars) content;
             boundary = rfind hard [nl, nl];
             kept = (if boundary > max_chars div 2 then take (nat boundary) content else hard)
         in fit_content_to_context llm content others = kept @ truncation_marker
            \<and> prefix kept content
            \<and> int (length kept) \<le> max_chars
            \<and> (boundary > max_chars div 2 \<longrightarrow>
                 prefix [nl, nl] (drop (nat boundary) hard)
                 \<and> (\<forall>j. nat boundary < j \<longrightarrow> \<not> prefix [nl, nl] (drop j hard)))))"
proof -
  define a where "a = fit_available llm others"
  define hard where "hard = take (nat (a * 4)) content"
  define b where "b = rfind hard [nl, nl]"
  define kept where "kept = (if b > a * 4 div 2 then take (nat b) content else hard)"
  have apos: "0 < a" by (simp add: a_def fit_available_def Let_def)
  have bl: "b \<le> int (length hard)"
  proof (cases "b = - 1")
    case True
    then show ?thesis by simp
  next
    case False
    with rfind_ge [of hard "[nl, nl]"] have "0 \<le> b" by (simp add: b_def)
    then have "rfind hard [nl, nl] = int (nat b)" by (simp add: b_def)
    from rfind_found [OF this] show ?thesis using \<open>0 \<le> b\<close> by linarith
  qed
  have hl: "int (length hard) \<le> a * 4" using apos by (simp add: hard_def)
  have "nat b \<le> nat (a * 4)" using bl hl by linarith
  then have tk: "take (nat b) hard = take (nat b) content"
    by (simp add: hard_def min_def)
  have bd: "prefix [nl, nl] (drop (nat b) hard)
       \<and> (\<forall>j. nat b < j \<longrightarrow> \<not> prefix [nl, nl] (drop j hard))" if "a * 4 div 2 < b"
  proof -
    from that apos have "0 \<le> b" by simp
    then have "rfind hard [nl, nl] = int (nat b)" by (simp add: b_def)
    from rfind_found [OF this]
    have p: "prefix [nl, nl] (drop (nat b) hard)"
      and q: "\<And>j. nat b < j \<Longrightarrow> j \<le> length hard \<Longrightarrow> \<not> prefix [nl, nl] (drop j hard)"
      by simp_all
    have "\<not> prefix [nl, nl] (drop j hard)" if "nat b < j" for j
      using q [OF that] by (cases "j \<le> length hard") simp_all
    with p show ?thesis by simp
  qed
  have c1: "raw_available llm others
      = max_input_tokens llm - 10000 - sum_list (map estimate_tokens others)"
    by (simp add: raw_available_def)
  have c2: "a = (if raw_available llm others \<le> 0 then 10000 else raw_available llm others)"
    by (simp add: a_def fit_available_def)
  have c3: "fit_content_to_context llm content others = content" if "estimate_tokens content \<le> a"
    using that by (simp add: fit_content_to_context_def a_def)
  have c4: "fit_content_to_context llm content others = kept @ truncation_marker"
    if "a < estimate_tokens content"
    using that tk
    by (simp add: fit_content_to_context_def Let_def a_def [symmetric] hard_def [symmetric]
        b_def [symmetric] kept_def)
  have c5: "prefix kept content"
    by (simp add: kept_def hard_def take_is_prefix)
  have c6: "int (length kept) \<le> a * 4"
    using bl hl by (simp add: kept_def tk [symmetric])
  show ?thesis
    unfolding Let_def a_def [symmetric] hard_def [symmetric] b_def [symmetric] kept_def [symmetric]
    using c1 c2 c3 c4 c5 c6 bd by blast
qed

theorem fit_content_to_context_truncates_witness:
  "estimate_tokens ''abcdefgh'' \<le> fit_available \<lparr>respond = (\<lambda>h c. None), max_input_tokens = 10002, default_max_output_tokens = 100\<rparr> []
   \<and> fit_content_to_context \<lparr>respond = (\<lambda>h c. None), max_input_tokens = 10002, default_max_output_tokens = 100\<rparr> ''abcdefgh'' [] = ''abcdefgh''
   \<and> fit_available \<lparr>respond = (\<lambda>h c. None), max_input_tokens = 10002, default_max_output_tokens = 100\<rparr> []
       < estimate_tokens (''ab'' @ [nl, nl] @ ''cd'' @ [nl, nl] @ ''efghij'')
   \<and> fit_content_to_context \<lparr>respond = (\<lambda>h c. None), max_input_tokens = 10002, default_max_output_tokens = 100\<rparr>
        (''ab'' @ [nl, nl] @ ''cd'' @ [nl, nl] @ ''efghij'') []
       = ''ab'' @ [nl, nl] @ ''cd'' @ truncation_marker"
proof -
  define L where "L = \<lparr>respond = (\<lambda>(h :: call list) (c :: call). (None :: string option)),
                       max_input_tokens = 10002, default_max_output_tokens = 100\<rparr>"
  define C where "C = ''ab'' @ [nl, nl] @ ''cd'' @ [nl, nl] @ ''efghij''"
  have a: "fit_available L [] = 2"
    by (simp add: L_def fit_available_def raw_available_def)
  have s: "estimate_tokens ''abcdefgh'' \<le> fit_available L []"
    by (simp add: a estimate_tokens_def)
  have b: "fit_available L [] < estimate_tokens C"
    by (simp add: a C_def estimate_tokens_def)
  have h: "take (nat (fit_available L [] * 4)) C = ''ab'' @ [nl, nl] @ ''cd'' @ [nl, nl]"
    by (simp add: a C_def)
  have r: "rfind (''ab'' @ [nl, nl] @ ''cd'' @ [nl, nl]) [nl, nl] = 6"
    by code_simp
  have k: "take 6 C = ''ab'' @ [nl, nl] @ ''cd''"
    by (simp add: C_def)
  from fit_content_to_context_truncates [of L "[]" "''abcdefgh''"] s
  have 1: "fit_content_to_context L ''abcdefgh'' [] = ''abcdefgh''" by blast
  note t = fit_content_to_context_truncates [of L "[]" C, THEN conjunct2, THEN conjunct2,
      THEN conjunct2, THEN mp, OF b, unfolded Let_def h r, THEN conjunct1]
  from t have 2: "fit_content_to_context L C [] = ''ab'' @ [nl, nl] @ ''cd'' @ truncation_marker"
    by (simp add: a k)
  from s 1 b 2 show ?thesis unfolding L_def C_def by blast
qed

section \<open>Properties of the map-reduce orchestration\<close>

lemma generate_result:
  "generate llm c hist =
     ((case respond llm hist c of None \<Rightarrow> Inl LLMError | Some r \<Rightarrow> Inr r), hist @ [c])"
  by (simp add: generate_def split: option.splits)



lemma reduce_round_succeeds:
  "\<forall>h c. respond llm h c \<noteq> None \<Longrightarrow>
   \<exists>merged hist'. reduce_round llm tpl ttl rs hist = (Inr merged, hist')"
proof (induction llm tpl ttl rs hist rule: reduce_round.induct)
  case (3 llm tpl ttl x y rest hist)
  let ?c = "(reduce_system_prompt tpl, reduce_user_prompt tpl ttl (x @ separator @ y),
             default_max_output_tokens llm)"
  from 3(2) have "respond llm hist ?c \<noteq> None" by blast
  then obtain m where m: "respond llm hist ?c = Some m" by auto
  then have g: "generate llm ?c hist = (Inr m, hist @ [?c])" by (simp add: generate_def)
  from 3(1) [OF refl g [symmetric] refl 3(2)] obtain merged hist'
    where "reduce_round llm tpl ttl rest (hist @ [?c]) = (Inr merged, hist')" by blast
  with g show ?case by (simp add: Let_def)
qed simp_all

lemma hierarchical_rounds_le:
  "hierarchical_rounds llm tpl ttl rs hist \<le> ceillog2 (length rs)"
proof (induction "length rs" arbitrary: rs hist rule: less_induct)
  case less
  show ?case
  proof (cases "1 < length rs")
    case False
    then show ?thesis by simp
  next
    case True
    obtain res hist' where r: "reduce_round llm tpl ttl rs hist = (res, hist')"
      by (cases "reduce_round llm tpl ttl rs hist")
    show ?thesis
    proof (cases res)
      case (Inl e)
      with True r show ?thesis by simp
    next
      case (Inr merged)
      with r have l: "length merged = (length rs + 1) div 2"
        using reduce_round_length by blast
      with True have "length merged < length rs" by simp
      from less [OF this]
      have "hierarchical_rounds llm tpl ttl merged hist' \<le> ceillog2 (length merged)" .
      moreover from True have "ceillog2 (length rs) = 1 + ceillog2 ((length rs + 1) div 2)"
        using ceillog2_rec [of "length rs"] by simp
      ultimately show ?thesis using True r Inr l by simp
    qed
  qed
qed

lemma hierarchical_reduce_succeeds:
  assumes ok: "\<forall>h c. respond llm h c \<noteq> None" and ne: "rs \<noteq> []"
  shows "(\<exists>r hist'. hierarchical_reduce llm tpl ttl rs hist = (Inr r, hist'))
         \<and> hierarchical_rounds llm tpl ttl rs hist = ceillog2 (length rs)"
  using ne
proof (induction "length rs" arbitrary: rs hist rule: less_induct)
  case less
  show ?case
  proof (cases "1 < length rs")
    case False
    with less.prems obtain r where "rs = [r]"
      by (cases rs) (auto simp: not_less)
    then show ?thesis by simp
  next
    case True
    from reduce_round_succeeds [OF ok] obtain merged hist'
      where r: "reduce_round llm tpl ttl rs hist = (Inr merged, hist')" by blast
    then have l: "length merged = (length rs + 1) div 2"
      using reduce_round_length by blast
    with True have lt: "length merged < length rs" and mne: "merged \<noteq> []" by auto
    from less.hyps [OF lt mne]
    have ih: "(\<exists>r h'. hierarchical_reduce llm tpl ttl merged hist' = (Inr r, h'))
         \<and> hierarchical_rounds llm tpl ttl merged hist' = ceillog2 (length merged)" .
    from True have c: "ceillog2 (length rs) = 1 + ceillog2 ((length rs + 1) div 2)"
      using ceillog2_rec [of "length rs"] by simp
    have "hierarchical_reduce llm tpl ttl rs hist = hierarchical_reduce llm tpl ttl merged hist'"
      using True r by simp
    moreover have "hierarchical_rounds llm tpl ttl rs hist
        = Suc (hierarchical_rounds llm tpl ttl merged hist')"
      using True r by simp
    ultimately show ?thesis using ih c l by simp
  qed
qed



section \<open>Properties of the chained generators\<close>

text \<open>
  C6 (fallback when the plan cannot be parsed).  When the reply to the planning call of
  \<open>PracticeGenerator._generate_body\<close> has no topic, or the reply to the outline call of
  \<open>DeepDiveGenerator._generate_body\<close> has no section, exactly one more call is made, with
  the system and user prompts of the generator, and its outcome is the outcome of the
  method: the empty parse itself raises nothing.
\<close>

theorem plan_parse_fallback:
  "(respond llm hist (plan_system_prompt ptpl, plan_user_prompt ptpl content ttl u, 3072) = Some plan
      \<and> parse_topics plan = [] \<longrightarrow>
    practice_generate_body llm tpl ptpl content ttl u hist =
      ((case respond llm (hist @ [(plan_system_prompt ptpl, plan_user_prompt ptpl content ttl u, 3072)])
               (system_prompt tpl, user_prompt tpl content ttl u, default_max_output_tokens llm) of
          None \<Rightarrow> Inl LLMError
        | Some r \<Rightarrow> Inr r),
       hist @ [(plan_system_prompt ptpl, plan_user_prompt ptpl content ttl u, 3072),
               (system_prompt tpl, user_prompt tpl content ttl u, default_max_output_tokens llm)]))
   \<and> (respond llm hist (outline_system_prompt dtpl, outline_user_prompt dtpl content ttl u, 4096) = Some outline
      \<and> parse_outline_sections outline = [] \<longrightarrow>
    deep_dive_generate_body llm tpl dtpl content ttl u hist =
      ((case respond llm (hist @ [(outline_system_prompt dtpl, outline_user_prompt dtpl content ttl u, 4096)])
               (system_prompt tpl, user_prompt tpl content ttl u, default_max_output_tokens llm) of
          None \<Rightarrow> Inl LLMError
        | Some r \<Rightarrow> Inr r),
       hist @ [(outline_system_prompt dtpl, outline_user_prompt dtpl content ttl u, 4096),
               (system_prompt tpl, user_prompt tpl content ttl u, default_max_output_tokens llm)]))"
  by (simp add: practice_generate_body_def deep_dive_generate_body_def generate_def
      split: option.splits)

theorem plan_parse_fallback_witness:
  "respond \<lparr>respond = (\<lambda>h c. if h = [] then Some ''no list here'' else Some ''direct''),
            max_input_tokens = 10001, default_max_output_tokens = 100\<rparr> []
        (''plan'', ''abc'', 3072) = Some ''no list here''
   \<and> parse_topics ''no list here'' = []
   \<and> parse_outline_sections ''no list here'' = []
   \<and> practice_generate_body
        \<lparr>respond = (\<lambda>h c. if h = [] then Some ''no list here'' else Some ''direct''),
          max_input_tokens = 10001, default_max_output_tokens = 100\<rparr>
        \<lparr>system_prompt = ''base'', user_prompt = (\<lambda>c t u. c), reduce_system_prompt = [],
          reduce_user_prompt = (\<lambda>t c. c)\<rparr>
        \<lparr>plan_system_prompt = ''plan'', plan_user_prompt = (\<lambda>c t u. c),
          section_system_prompt = ''sec'',
          section_user_prompt = (\<lambda>c t u tp n. replicate (nat n) CHR ''q'')\<rparr>
        ''abc'' [] [] []
      = (Inr ''direct'', [(''plan'', ''abc'', 3072), (''base'', ''abc'', 100)])
   \<and> deep_dive_generate_body
        \<lparr>respond = (\<lambda>h c. if h = [] then Some ''no list here'' else Some ''direct''),
          max_input_tokens = 10001, default_max_output_tokens = 100\<rparr>
        \<lparr>system_prompt = ''base'', user_prompt = (\<lambda>c t u. c), reduce_system_prompt = [],
          reduce_user_prompt = (\<lambda>t c. c)\<rparr>
        \<lparr>outline_system_prompt = ''plan'', outline_user_prompt = (\<lambda>c t u. c),
          expand_system_prompt = ''sec'',
          expand_user_prompt = (\<lambda>c t u s outline. heading s)\<rparr>
        ''abc'' [] [] []
      = (Inr ''direct'', [(''plan'', ''abc'', 4096), (''base'', ''abc'', 100)])"
proof -
  define L where "L = \<lparr>respond = (\<lambda>(h :: call list) (c :: call).
        if h = [] then Some ''no list here'' else Some ''direct''),
      max_input_tokens = 10001, default_max_output_tokens = 100\<rparr>"
  define T where "T = \<lparr>system_prompt = ''base'',
      user_prompt = (\<lambda>(c :: string) (t :: string) (u :: string). c),
      reduce_system_prompt = [], reduce_user_prompt = (\<lambda>(t :: string) (c :: string). c)\<rparr>"
  define P where "P = \<lparr>plan_system_prompt = ''plan'',
      plan_user_prompt = (\<lambda>(c :: string) (t :: string) (u :: string). c),
      section_system_prompt = ''sec'',
      section_user_prompt = (\<lambda>(c :: string) (t :: string) (u :: string) (tp :: topic) (n :: int).
        replicate (nat n) CHR ''q'')\<rparr>"
  define D where "D = \<lparr>outline_system_prompt = ''plan'',
      outline_user_prompt = (\<lambda>(c :: string) (t :: string) (u :: string). c),
      expand_system_prompt = ''sec'',
      expand_user_prompt = (\<lambda>(c :: string) (t :: string) (u :: string) (s :: outline_section)
        (outline :: string). heading s)\<rparr>"
  have r: "respond L [] (''plan'', ''abc'', 3072) = Some ''no list here''"
    by (simp add: L_def)
  have rp: "respond L [] (plan_system_prompt P, plan_user_prompt P ''abc'' [] [], 3072)
      = Some ''no list here''"
    by (simp add: L_def)
  have rd: "respond L [] (outline_system_prompt D, outline_user_prompt D ''abc'' [] [], 4096)
      = Some ''no list here''"
    by (simp add: L_def)
  have p: "parse_topics ''no list here'' = []" by code_simp
  have d: "parse_outline_sections ''no list here'' = []" by code_simp
  from plan_parse_fallback [of L "[]" P "''abc''" "[]" "[]" "''no list here''" T D "''no list here''"]
    rp rd p d
  have 1: "practice_generate_body L T P ''abc'' [] [] []
      = (Inr ''direct'', [(''plan'', ''abc'', 3072), (''base'', ''abc'', 100)])"
    and 2: "deep_dive_generate_body L T D ''abc'' [] [] []
      = (Inr ''direct'', [(''plan'', ''abc'', 4096), (''base'', ''abc'', 100)])"
    by (simp_all add: L_def T_def P_def D_def)
  from r p d 1 2 show ?thesis unfolding L_def T_def P_def D_def by blast
qed

lemma practice_sections_calls:
  "\<exists>k\<le>length topics.
     snd (practice_sections llm ptpl fc ttl u topics q hist) =
       hist @ map (\<lambda>i. (section_system_prompt ptpl,
                         section_user_prompt ptpl fc ttl u (topics ! i)
                           (q + sum_list (map count (take i topics))),
                         default_max_output_tokens llm)) [0..<k]
     \<and> (\<forall>ss. fst (practice_sections llm ptpl fc ttl u topics q hist) = Inr ss \<longrightarrow>
            k = length topics)"
proof (induction topics arbitrary: q hist)
  case Nil
  then show ?case by simp
next
  case (Cons tp topics)
  let ?c = "(section_system_prompt ptpl, section_user_prompt ptpl fc ttl u tp q,
             default_max_output_tokens llm)"
  let ?f = "\<lambda>i. (section_system_prompt ptpl,
                  section_user_prompt ptpl fc ttl u ((tp # topics) ! i)
                    (q + sum_list (map count (take i (tp # topics)))),
                  default_max_output_tokens llm)"
  show ?case
  proof (cases "respond llm hist ?c")
    case None
    then have "practice_sections llm ptpl fc ttl u (tp # topics) q hist
                 = (Inl LLMError, hist @ [?c])"
      by (simp add: generate_def)
    then have "snd (practice_sections llm ptpl fc ttl u (tp # topics) q hist)
                 = hist @ map ?f [0..<1]
               \<and> (\<forall>ss. fst (practice_sections llm ptpl fc ttl u (tp # topics) q hist) = Inr ss
                     \<longrightarrow> 1 = length (tp # topics))"
      by simp
    then show ?thesis by (intro exI [of _ 1]) simp
  next
    case (Some sec)
    then have g: "generate llm ?c hist = (Inr sec, hist @ [?c])"
      by (simp add: generate_def)
    from Cons [of "q + count tp" "hist @ [?c]"] obtain k where k: "k \<le> length topics"
      and s: "snd (practice_sections llm ptpl fc ttl u topics (q + count tp) (hist @ [?c])) =
       (hist @ [?c]) @ map (\<lambda>i. (section_system_prompt ptpl,
                         section_user_prompt ptpl fc ttl u (topics ! i)
                           (q + count tp + sum_list (map count (take i topics))),
                         default_max_output_tokens llm)) [0..<k]"
      and f: "\<forall>ss. fst (practice_sections llm ptpl fc ttl u topics (q + count tp) (hist @ [?c])) = Inr ss
               \<longrightarrow> k = length topics"
      by blast
    have m: "map ?f [0..<Suc k] = ?c # map (\<lambda>i. (section_system_prompt ptpl,
                         section_user_prompt ptpl fc ttl u (topics ! i)
                           (q + count tp + sum_list (map count (take i topics))),
                         default_max_output_tokens llm)) [0..<k]"
      by (simp add: map_upt_Suc add.assoc del: upt_Suc)
    have 1: "snd (practice_sections llm ptpl fc ttl u (tp # topics) q hist)
          = snd (practice_sections llm ptpl fc ttl u topics (q + count tp) (hist @ [?c]))"
      using g by (simp split: prod.splits sum.splits)
    have 2: "fst (practice_sections llm ptpl fc ttl u (tp # topics) q hist) = Inr ss \<Longrightarrow>
          \<exists>ss'. fst (practice_sections llm ptpl fc ttl u topics (q + count tp) (hist @ [?c])) = Inr ss'" for ss
      using g by (auto split: prod.splits sum.splits)
    have "snd (practice_sections llm ptpl fc ttl u (tp # topics) q hist) = hist @ map ?f [0..<Suc k]"
      using 1 s m by simp
    moreover have "\<forall>ss. fst (practice_sections llm ptpl fc ttl u (tp # topics) q hist) = Inr ss
               \<longrightarrow> Suc k = length (tp # topics)"
      using 2 f by auto
    ultimately show ?thesis using k by (intro exI [of _ "Suc k"]) simp
  qed
qed

text \<open>
  C9 (question numbering).  In \<open>PracticeGenerator._generate_body\<close> the calls after the
  planning call are the section calls of the topics in order, and the start number in the
  prompt of topic \<open>i\<close> (counted from 0) is 1 plus the sum of the planned counts of the topics
  before it.  The replies of the service do not occur in that number.  All topics are
  called when the method returns a result; the calls stop at the first one that fails.
\<close>

theorem practice_question_numbering:
  assumes "respond llm hist (plan_system_prompt ptpl, plan_user_prompt ptpl content ttl u, 3072) = Some plan"
    and "parse_topics plan \<noteq> []"
  shows "\<exists>k\<le>length (parse_topics plan).
     snd (practice_generate_body llm tpl ptpl content ttl u hist) =
       hist @ [(plan_system_prompt ptpl, plan_user_prompt ptpl content ttl u, 3072)]
         @ map (\<lambda>i. (section_system_prompt ptpl,
                       section_user_prompt ptpl
                         (fit_content_to_context llm content [plan, overhead_buffer]) ttl u
                         (parse_topics plan ! i)
                         (1 + sum_list (map count (take i (parse_topics plan)))),
                       default_max_output_tokens llm)) [0..<k]
     \<and> (\<forall>body. fst (practice_generate_body llm tpl ptpl content ttl u hist) = Inr body \<longrightarrow>
            k = length (parse_topics plan))"
proof -
  let ?pc = "(plan_system_prompt ptpl, plan_user_prompt ptpl content ttl u, 3072)"
  let ?fc = "fit_content_to_context llm content [plan, overhead_buffer]"
  let ?ps = "practice_sections llm ptpl ?fc ttl u (parse_topics plan) 1 (hist @ [?pc])"
  from practice_sections_calls [of "parse_topics plan" llm ptpl ?fc ttl u 1 "hist @ [?pc]"]
  obtain k where k: "k \<le> length (parse_topics plan)"
    and s: "snd ?ps = (hist @ [?pc]) @ map (\<lambda>i. (section_system_prompt ptpl,
                       section_user_prompt ptpl ?fc ttl u (parse_topics plan ! i)
                         (1 + sum_list (map count (take i (parse_topics plan)))),
                       default_max_output_tokens llm)) [0..<k]"
    and f: "\<forall>ss. fst ?ps = Inr ss \<longrightarrow> k = length (parse_topics plan)"
    by blast
  from assms have b: "practice_generate_body llm tpl ptpl content ttl u hist =
      (case ?ps of (Inl e, h) \<Rightarrow> (Inl e, h)
                 | (Inr all_sections, h) \<Rightarrow> (Inr (join [nl, nl] all_sections), h))"
    by (simp add: practice_generate_body_def generate_def Let_def)
  have 1: "snd (practice_generate_body llm tpl ptpl content ttl u hist) = snd ?ps"
    unfolding b by (simp split: prod.splits sum.splits)
  have 2: "fst (practice_generate_body llm tpl ptpl content ttl u hist) = Inr body \<Longrightarrow>
        \<exists>ss. fst ?ps = Inr ss" for body
    unfolding b by (auto split: prod.splits sum.splits)
  from k s f 1 2 show ?thesis by (intro exI [of _ k]) auto
qed

theorem practice_question_numbering_witness:
  "respond \<lparr>respond = (\<lambda>h c. if h = []
                then Some (''1. **A**'' @ [nl] @ ''2. **B** (3 questions)'' @ [nl] @ ''3. **C**'')
                else Some ''x''),
            max_input_tokens = 20000, default_max_output_tokens = 100\<rparr> []
        (''plan'', ''abc'', 3072)
      = Some (''1. **A**'' @ [nl] @ ''2. **B** (3 questions)'' @ [nl] @ ''3. **C**'')
   \<and> map count (parse_topics (''1. **A**'' @ [nl] @ ''2. **B** (3 questions)'' @ [nl] @ ''3. **C**''))
       = [5, 3, 5]
   \<and> snd (practice_generate_body
        \<lparr>respond = (\<lambda>h c. if h = []
                then Some (''1. **A**'' @ [nl] @ ''2. **B** (3 questions)'' @ [nl] @ ''3. **C**'')
                else Some ''x''),
          max_input_tokens = 20000, default_max_output_tokens = 100\<rparr>
        \<lparr>system_prompt = ''base'', user_prompt = (\<lambda>c t u. c), reduce_system_prompt = [],
          reduce_user_prompt = (\<lambda>t c. c)\<rparr>
        \<lparr>plan_system_prompt = ''plan'', plan_user_prompt = (\<lambda>c t u. c),
          section_system_prompt = ''sec'',
          section_user_prompt = (\<lambda>c t u tp n. replicate (nat n) CHR ''q'')\<rparr>
        ''abc'' [] [] [])
      = [(''plan'', ''abc'', 3072), (''sec'', ''q'', 100), (''sec'', ''qqqqqq'', 100),
         (''sec'', ''qqqqqqqqq'', 100)]"
proof -
  define plan where "plan = ''1. **A**'' @ [nl] @ ''2. **B** (3 questions)'' @ [nl] @ ''3. **C**''"
  define L where "L = \<lparr>respond = (\<lambda>(h :: call list) (c :: call).
        if h = [] then Some plan else Some ''x''),
      max_input_tokens = 20000, default_max_output_tokens = 100\<rparr>"
  define T where "T = \<lparr>system_prompt = ''base'',
      user_prompt = (\<lambda>(c :: string) (t :: string) (u :: string). c),
      reduce_system_prompt = [], reduce_user_prompt = (\<lambda>(t :: string) (c :: string). c)\<rparr>"
  define P where "P = \<lparr>plan_system_prompt = ''plan'',
      plan_user_prompt = (\<lambda>(c :: string) (t :: string) (u :: string). c),
      section_system_prompt = ''sec'',
      section_user_prompt = (\<lambda>(c :: string) (t :: string) (u :: string) (tp :: topic) (n :: int).
        replicate (nat n) CHR ''q'')\<rparr>"
  have r: "respond L [] (''plan'', ''abc'', 3072) = Some plan"
    by (simp add: L_def)
  have rp: "respond L [] (plan_system_prompt P, plan_user_prompt P ''abc'' [] [], 3072) = Some plan"
    by (simp add: L_def)
  have tp: "parse_topics plan = [\<lparr>name = ''A'', concepts = [], count = 5\<rparr>,
      \<lparr>name = ''B'', concepts = [], count = 3\<rparr>, \<lparr>name = ''C'', concepts = [], count = 5\<rparr>]"
    unfolding plan_def by code_simp
  then have ne: "parse_topics plan \<noteq> []" and cs: "map count (parse_topics plan) = [5, 3, 5]"
    by simp_all
  have f: "\<exists>body h. practice_generate_body L T P ''abc'' [] [] [] = (Inr body, h)"
    by (simp add: practice_generate_body_def generate_def L_def tp Let_def)
  from practice_question_numbering [OF rp ne, of T] obtain k where
    k: "k \<le> length (parse_topics plan)"
    and s: "snd (practice_generate_body L T P ''abc'' [] [] []) =
       [] @ [(plan_system_prompt P, plan_user_prompt P ''abc'' [] [], 3072)]
         @ map (\<lambda>i. (section_system_prompt P,
                       section_user_prompt P
                         (fit_content_to_context L ''abc'' [plan, overhead_buffer]) [] []
                         (parse_topics plan ! i)
                         (1 + sum_list (map count (take i (parse_topics plan)))),
                       default_max_output_tokens L)) [0..<k]"
    and a: "\<forall>body. fst (practice_generate_body L T P ''abc'' [] [] []) = Inr body \<longrightarrow>
            k = length (parse_topics plan)"
    by blast
  from f a have "k = 3" by (auto simp: tp)
  have three: "[0..<3] = [0, 1, 2]" by (simp add: upt_rec)
  from s have "snd (practice_generate_body L T P ''abc'' [] [] [])
      = [(''plan'', ''abc'', 3072), (''sec'', ''q'', 100), (''sec'', ''qqqqqq'', 100),
         (''sec'', ''qqqqqqqqq'', 100)]"
    unfolding \<open>k = 3\<close> three by (simp add: tp P_def L_def eval_nat_numeral)
  with r cs show ?thesis unfolding L_def T_def P_def plan_def by blast
qed

section \<open>Properties of the output sanitizer\<close>

lemma blank_rest_Nil [simp]: "blank_rest []"
  by (simp add: blank_rest_def)

lemma blank_rest_Cons: "blank_rest (c # s) = (c = nl \<or> (isspace c \<and> blank_rest s))"
  by (simp add: blank_rest_def)

lemma hd_split_lines: "hd (split_lines s) = takeWhile (\<lambda>c. c \<noteq> nl) s"
  by (induction s) (auto simp: hd_cons_first)

lemma rstrip_lines_split:
  "\<exists>J. rstrip_lines s = rstrip (takeWhile (\<lambda>c. c \<noteq> nl) s) @ J
       \<and> (\<forall>c. c \<noteq> nl \<longrightarrow>
             rstrip_lines (c # s) = rstrip (c # takeWhile (\<lambda>c. c \<noteq> nl) s) @ J)"
proof -
  obtain l ls where sl: "split_lines s = l # ls"
    by (cases "split_lines s") simp_all
  then have l: "l = takeWhile (\<lambda>c. c \<noteq> nl) s"
    using hd_split_lines [of s] by simp
  define J where "J = (if ls = [] then [] else nl # join [nl] (map rstrip ls))"
  have j: "join [nl] (x # map rstrip ls) = x @ J" for x
    by (cases ls) (simp_all add: J_def)
  have "rstrip_lines s = rstrip l @ J"
    by (simp add: rstrip_lines_def sl j)
  moreover have "rstrip_lines (c # s) = rstrip (c # l) @ J" if "c \<noteq> nl" for c
    using that by (simp add: rstrip_lines_def sl j)
  ultimately show ?thesis unfolding l by blast
qed

lemma rstrip_lines_Nil [simp]: "rstrip_lines [] = []"
  by (simp add: rstrip_lines_def)

lemma rstrip_lines_Cons:
  "rstrip_lines (c # s) =
     (if c = nl then nl # rstrip_lines s
      else if isspace c \<and> blank_rest s then rstrip_lines s
      else c # rstrip_lines s)"
proof (cases "c = nl")
  case True
  have "join [nl] ([] # map rstrip (split_lines s)) = nl # join [nl] (map rstrip (split_lines s))"
    by (cases "split_lines s") simp_all
  with True show ?thesis by (simp add: rstrip_lines_def)
next
  case False
  from rstrip_lines_split [of s] obtain J where
    a: "rstrip_lines s = rstrip (takeWhile (\<lambda>c. c \<noteq> nl) s) @ J"
    and b: "rstrip_lines (c # s) = rstrip (c # takeWhile (\<lambda>c. c \<noteq> nl) s) @ J"
    using False by blast
  have e: "rstrip (takeWhile (\<lambda>c. c \<noteq> nl) s) = [] \<longleftrightarrow> blank_rest s"
    by (simp add: rstrip_eq_Nil_iff blank_rest_def)
  show ?thesis using False a b e by (auto simp: rstrip_Cons)
qed

lemma blank_rest_rstrip_lines: "blank_rest (rstrip_lines s) = blank_rest s"
  by (induction s) (auto simp: rstrip_lines_Cons blank_rest_Cons)

lemma no_trailing_space_rstrip_lines: "no_trailing_space (rstrip_lines s)"
  by (induction s) (auto simp: rstrip_lines_Cons blank_rest_rstrip_lines)

lemma rstrip_lines_fixed: "no_trailing_space s \<Longrightarrow> rstrip_lines s = s"
  by (induction s) (auto simp: rstrip_lines_Cons)

lemma no_trailing_space_lstrip: "no_trailing_space s \<Longrightarrow> no_trailing_space (lstrip s)"
  by (induction s) (auto simp: lstrip_Cons)

lemma blank_rest_snoc_nl: "blank_rest (s @ [nl]) = blank_rest s"
  by (induction s) (auto simp: blank_rest_Cons)

lemma no_trailing_space_snoc_nl: "no_trailing_space (s @ [nl]) \<Longrightarrow> no_trailing_space s"
  by (induction s) (auto simp: blank_rest_snoc_nl)

lemma blank_rest_snoc_space: "isspace c \<Longrightarrow> blank_rest (s @ [c]) = blank_rest s"
  by (induction s) (auto simp: blank_rest_Cons)

lemma no_trailing_space_snoc_space:
  "isspace c \<Longrightarrow> c \<noteq> nl \<Longrightarrow> \<not> no_trailing_space (s @ [c])"
  by (induction s) (auto simp: blank_rest_snoc_space)

lemma no_trailing_space_rstrip: "no_trailing_space s \<Longrightarrow> no_trailing_space (rstrip s)"
proof (induction s rule: rev_induct)
  case Nil
  then show ?case by simp
next
  case (snoc c s)
  show ?case
  proof (cases "isspace c")
    case True
    with snoc.prems no_trailing_space_snoc_space [of c s] have "c = nl" by blast
    with snoc.prems have "no_trailing_space s" by (simp add: no_trailing_space_snoc_nl)
    with snoc.IH True show ?thesis by (simp add: rstrip_snoc)
  next
    case False
    with snoc.prems show ?thesis by (simp add: rstrip_snoc)
  qed
qed

lemma no_trailing_space_strip: "no_trailing_space s \<Longrightarrow> no_trailing_space (strip s)"
  by (simp add: strip_def no_trailing_space_lstrip no_trailing_space_rstrip)

lemma clean_output_stripped: "strip (clean_output nt x t) = clean_output nt x t"
  by (simp add: clean_output_def Let_def)

lemma clean_output_no_trailing_space: "no_trailing_space (clean_output nt x t)"
  by (simp add: clean_output_def Let_def no_trailing_space_strip no_trailing_space_rstrip_lines)

text \<open>
  C2 (idempotence of the sanitizer).  The claim is that cleaning twice gives what cleaning
  once gives.  It fails in three ways.  A blank line that holds a space separates two runs
  of two newlines; the collapse of newlines runs before the trailing whitespace is removed,
  so the first pass returns four newlines in a row and the second pass collapses them.  Only
  the first frontmatter block is removed, so a second block is removed by the second pass.
  Only the first heading line is removed, so a repeated heading is removed by the second
  pass.
\<close>

theorem clean_output_not_idempotent:
  "clean_output ''summary''
       (clean_output ''summary'' (''a'' @ [nl, nl] @ '' '' @ [nl, nl] @ ''b'') ''T'') ''T''
     \<noteq> clean_output ''summary'' (''a'' @ [nl, nl] @ '' '' @ [nl, nl] @ ''b'') ''T''
   \<and> clean_output ''summary''
       (clean_output ''summary''
          (''---'' @ [nl] @ ''a'' @ [nl] @ ''---'' @ [nl] @ ''---'' @ [nl] @ ''b'' @ [nl] @ ''---'' @ [nl] @ ''c'')
          ''T'') ''T''
     \<noteq> clean_output ''summary''
          (''---'' @ [nl] @ ''a'' @ [nl] @ ''---'' @ [nl] @ ''---'' @ [nl] @ ''b'' @ [nl] @ ''---'' @ [nl] @ ''c'')
          ''T''
   \<and> clean_output ''summary''
       (clean_output ''summary'' (''# T'' @ [nl] @ ''# T'' @ [nl] @ ''body'') ''T'') ''T''
     \<noteq> clean_output ''summary'' (''# T'' @ [nl] @ ''# T'' @ [nl] @ ''body'') ''T''"
  by code_simp

text \<open>
  C2, amended.  When the result of the first pass is left unchanged by the frontmatter
  step, by the heading step and by the collapse of newlines, a second pass returns it
  unchanged: the result of a pass is always stripped and never has a line that ends in
  whitespace.
\<close>

theorem clean_output_idempotent_when_stable:
  assumes "sub_frontmatter (clean_output nt x t) = clean_output nt x t"
    and "drop_heading nt t (clean_output nt x t) = clean_output nt x t"
    and "collapse_newlines (clean_output nt x t) = clean_output nt x t"
  shows "clean_output nt (clean_output nt x t) t = clean_output nt x t"
proof -
  define y where "y = clean_output nt x t"
  have s: "strip y = y" unfolding y_def by (rule clean_output_stripped)
  have r: "rstrip_lines y = y"
    unfolding y_def by (rule rstrip_lines_fixed) (rule clean_output_no_trailing_space)
  have "clean_output nt y t = y"
    using assms s r unfolding y_def [symmetric]
    by (simp add: clean_output_def Let_def)
  then show ?thesis unfolding y_def .
qed

theorem clean_output_idempotent_when_stable_witness:
  "clean_output ''summary'' (''# Mars'' @ [nl] @ ''body  '' @ [nl, nl, nl, nl, nl] @ ''end '') ''Mars - Summary''
     = ''body'' @ [nl, nl, nl] @ ''end''
   \<and> sub_frontmatter (''body'' @ [nl, nl, nl] @ ''end'') = ''body'' @ [nl, nl, nl] @ ''end''
   \<and> drop_heading ''summary'' ''Mars - Summary'' (''body'' @ [nl, nl, nl] @ ''end'')
       = ''body'' @ [nl, nl, nl] @ ''end''
   \<and> collapse_newlines (''body'' @ [nl, nl, nl] @ ''end'') = ''body'' @ [nl, nl, nl] @ ''end''
   \<and> clean_output ''summary'' (''body'' @ [nl, nl, nl] @ ''end'') ''Mars - Summary''
       = ''body'' @ [nl, nl, nl] @ ''end''"
proof -
  define x where "x = ''# Mars'' @ [nl] @ ''body  '' @ [nl, nl, nl, nl, nl] @ ''end ''"
  define y where "y = ''body'' @ [nl, nl, nl] @ ''end''"
  have c: "clean_output ''summary'' x ''Mars - Summary'' = y"
    unfolding x_def y_def by code_simp
  have f: "sub_frontmatter y = y" unfolding y_def by code_simp
  have h: "drop_heading ''summary'' ''Mars - Summary'' y = y" unfolding y_def by code_simp
  have n: "collapse_newlines y = y" unfolding y_def by code_simp
  from clean_output_idempotent_when_stable [of "''summary''" x "''Mars - Summary''"] c f h n
  have "clean_output ''summary'' y ''Mars - Summary'' = y" by simp
  with c f h n show ?thesis unfolding x_def y_def by blast
qed

lemma clean_output_removes_mars:
  "clean_output nt (''# Mars'' @ nl # rest) ''Mars - Summary''
     = strip (rstrip_lines (collapse_newlines (strip rest)))"
proof -
  have t1: "strip (''# Mars'' @ nl # rest) = ''# Mars'' @ rstrip (nl # rest)"
    by (rule strip_append_core) (simp_all add: isspace_def)
  show ?thesis
  proof (cases "rstrip rest = []")
    case True
    then have "strip rest = []"
      by (metis strip_rstrip strip_Nil)
    moreover have "strip (''# Mars'' @ nl # rest) = ''# Mars''"
      using True by (simp only: t1 rstrip_nl_Cons) simp
    ultimately show ?thesis
      apply (simp only: clean_output_def Let_def)
      apply (simp add: strip_def lstrip_def rstrip_def isspace_def sub_frontmatter_def
      drop_heading_def dot_plus_def duplicate_heading_def lower_def lower_char_def nl_def
      rstrip_lines_def)
      done
  next
    case False
    define r where "r = rstrip rest"
    have r: "r \<noteq> []" "strip r = strip rest" using False by (simp_all add: r_def)
    have s1: "strip (''# Mars'' @ nl # rest) = ''# Mars'' @ nl # r"
      using False by (simp only: t1 rstrip_nl_Cons r_def) simp
    have s2: "sub_frontmatter (''# Mars'' @ nl # r) = ''# Mars'' @ nl # r"
      by (simp add: sub_frontmatter_def)
    have s3: "strip (''# Mars'' @ nl # r) = ''# Mars'' @ nl # r"
      using s1 strip_idem [of "''# Mars'' @ nl # rest"] by simp
    have s4: "h1_match (''# Mars'' @ nl # r) = Some ''Mars''"
      by (simp add: isspace_def dot_plus_def nl_def)
    have s5: "duplicate_heading nt ''Mars - Summary'' ''Mars''"
      by (simp add: duplicate_heading_def strip_def lstrip_def rstrip_def isspace_def lower_def lower_char_def)
    have s6: "find_nl (''# Mars'' @ nl # r) = Some 6"
      by (simp add: nl_def)
    have "drop_heading nt ''Mars - Summary'' (''# Mars'' @ nl # r) = strip rest"
      using s4 s5 s6 r by (simp add: drop_heading_def)
    then show ?thesis
      by (simp add: clean_output_def s1 s2 s3 del: append.simps)
  qed
qed

lemma clean_output_keeps_unrelated:
  assumes nt: "\<not> contains nt ''unrelated topic''"
  shows "clean_output nt (''# Unrelated Topic'' @ nl # rest) ''Mars - Summary''
     = strip (rstrip_lines (collapse_newlines (strip (''# Unrelated Topic'' @ nl # rest))))
    \<and> prefix ''# Unrelated Topic'' (clean_output nt (''# Unrelated Topic'' @ nl # rest) ''Mars - Summary'')"
proof -
  define H where "H = ''# Unrelated Topic''"
  define t where "t = rstrip (nl # rest)"
  have Hn: "nl \<notin> set H" by (simp add: H_def nl_def)
  have Hr: "rstrip H = H" by (simp add: H_def rstrip_def isspace_def)
  have Hc: "H \<noteq> []" "\<not> isspace (hd H)" "\<not> isspace (last H)" by (simp_all add: H_def isspace_def)
  have t: "t = [] \<or> (\<exists>r. t = nl # r)" by (auto simp: t_def rstrip_nl_Cons)
  have s1: "strip (H @ nl # rest) = H @ t"
    unfolding t_def using Hc by (rule strip_append_core)
  have s2: "sub_frontmatter (H @ t) = H @ t"
    by (simp add: sub_frontmatter_def H_def)
  have s3: "strip (H @ t) = H @ t"
    using s1 strip_idem [of "H @ nl # rest"] by simp
  have s4: "h1_match (H @ t) = Some ''Unrelated Topic''"
    using t by (auto simp add: H_def isspace_def dot_plus_def nl_def)
  have l1: "strip (lower (strip ''Unrelated Topic'')) = ''unrelated topic''" by code_simp
  have l2: "strip (lower ''Mars - Summary'') = ''mars - summary''" by code_simp
  have s5: "\<not> duplicate_heading nt ''Mars - Summary'' ''Unrelated Topic''"
    using nt by (simp add: duplicate_heading_def l1 l2)
  have s6: "drop_heading nt ''Mars - Summary'' (H @ t) = H @ t"
    using s4 s5 by (simp add: drop_heading_def)
  have c: "clean_output nt (H @ nl # rest) ''Mars - Summary''
      = strip (rstrip_lines (collapse_newlines (H @ t)))"
    using Hc(1) by (simp add: clean_output_def s1 s2 s3 s6)
  have "prefix H (strip (rstrip_lines (collapse_newlines (H @ t))))"
  proof -
    have "collapse_newlines (H @ t) = H @ collapse_newlines t"
      using Hn by (rule collapse_newlines_no_nl)
    moreover have "collapse_newlines t = [] \<or> (\<exists>u. collapse_newlines t = nl # u)"
      using t collapse_newlines_nl_Cons by auto
    ultimately have "\<exists>v. rstrip_lines (collapse_newlines (H @ t)) = H @ v"
      using Hn Hr by (auto simp: rstrip_lines_no_nl rstrip_lines_line)
    then obtain v where "rstrip_lines (collapse_newlines (H @ t)) = H @ v" ..
    then show ?thesis using strip_append_core [OF Hc, of v] by simp
  qed
  with c s1 show ?thesis unfolding H_def by simp
qed

lemma clean_output_only_mars: "clean_output nt ''# Mars'' ''Mars - Summary'' = []"
  by (simp add: clean_output_def strip_def lstrip_def rstrip_def isspace_def
      sub_frontmatter_def drop_heading_def dot_plus_def duplicate_heading_def lower_def
      lower_char_def nl_def rstrip_lines_def)

lemma clean_output_only_unrelated:
  assumes "\<not> contains nt ''unrelated topic''"
  shows "clean_output nt ''# Unrelated Topic'' ''Mars - Summary'' = ''# Unrelated Topic''"
proof -
  have l1: "strip (lower (strip ''Unrelated Topic'')) = ''unrelated topic''" by code_simp
  have l2: "strip (lower ''Mars - Summary'') = ''mars - summary''" by code_simp
  have s: "strip ''# Unrelated Topic'' = ''# Unrelated Topic''" by code_simp
  have f: "sub_frontmatter ''# Unrelated Topic'' = ''# Unrelated Topic''" by code_simp
  have h: "h1_match ''# Unrelated Topic'' = Some ''Unrelated Topic''" by code_simp
  have d: "\<not> duplicate_heading nt ''Mars - Summary'' ''Unrelated Topic''"
    using assms by (simp add: duplicate_heading_def l1 l2)
  have c: "collapse_newlines ''# Unrelated Topic'' = ''# Unrelated Topic''" by code_simp
  have r: "rstrip_lines ''# Unrelated Topic'' = ''# Unrelated Topic''" by code_simp
  show ?thesis
    by (simp only: clean_output_def Let_def s f drop_heading_def h d c r option.case if_False)
       simp
qed

text \<open>
  C8 (duplicate-heading removal).  With the title \<open>Mars - Summary\<close>, a text whose first
  line is \<open># Mars\<close> is cleaned to what the later steps make of the lines after it: the
  heading line is gone.  A text whose first line is \<open># Unrelated Topic\<close> keeps that line as
  the first line of the result, for every note type that is not part of
  \<open>unrelated topic\<close> (the four note types of the program are not).
\<close>

theorem duplicate_heading_removal:
  "clean_output nt ''# Mars'' ''Mars - Summary'' = []
   \<and> clean_output nt (''# Mars'' @ nl # rest) ''Mars - Summary''
     = strip (rstrip_lines (collapse_newlines (strip rest)))
   \<and> (\<not> contains nt ''unrelated topic'' \<longrightarrow>
        clean_output nt ''# Unrelated Topic'' ''Mars - Summary'' = ''# Unrelated Topic''
        \<and> clean_output nt (''# Unrelated Topic'' @ nl # rest) ''Mars - Summary''
          = strip (rstrip_lines (collapse_newlines (strip (''# Unrelated Topic'' @ nl # rest))))
        \<and> prefix ''# Unrelated Topic''
            (clean_output nt (''# Unrelated Topic'' @ nl # rest) ''Mars - Summary''))"
  using clean_output_removes_mars [of nt rest] clean_output_keeps_unrelated [of nt rest]
    clean_output_only_mars [of nt] clean_output_only_unrelated [of nt]
  by blast

theorem duplicate_heading_removal_witness:
  "\<not> contains ''summary'' ''unrelated topic''
   \<and> \<not> contains ''deep_dive'' ''unrelated topic''
   \<and> \<not> contains ''qa'' ''unrelated topic''
   \<and> \<not> contains ''practice'' ''unrelated topic''
   \<and> clean_output ''summary'' (''# Mars'' @ nl # ''body'') ''Mars - Summary'' = ''body''
   \<and> prefix ''# Unrelated Topic''
        (clean_output ''summary'' (''# Unrelated Topic'' @ nl # ''body'') ''Mars - Summary'')"
proof -
  have n: "\<not> contains ''summary'' ''unrelated topic''"
    "\<not> contains ''deep_dive'' ''unrelated topic''"
    "\<not> contains ''qa'' ''unrelated topic''"
    "\<not> contains ''practice'' ''unrelated topic''"
    by code_simp+
  have t: "strip (rstrip_lines (collapse_newlines (strip ''body''))) = ''body''"
    by code_simp
  from duplicate_heading_removal [of "''summary''" "''body''"]
  have 1: "clean_output ''summary'' (''# Mars'' @ nl # ''body'') ''Mars - Summary''
      = strip (rstrip_lines (collapse_newlines (strip ''body'')))"
    and 2: "\<not> contains ''summary'' ''unrelated topic'' \<longrightarrow>
      prefix ''# Unrelated Topic''
        (clean_output ''summary'' (''# Unrelated Topic'' @ nl # ''body'') ''Mars - Summary'')"
    by blast+
  from 1 t have "clean_output ''summary'' (''# Mars'' @ nl # ''body'') ''Mars - Summary'' = ''body''"
    by (simp only:)
  with 2 n show ?thesis by blast
qed

text \<open>
  C10 (the sanitizer can return the empty string).  A text that is only the heading
  \<open># Mars\<close>, with the title \<open>Mars - Summary\<close>, and a text that is only a frontmatter block
  are both cleaned to the empty string, whatever the note type.
\<close>

theorem clean_output_can_drop_everything:
  "''# Mars'' \<noteq> [] \<and> clean_output nt ''# Mars'' ''Mars - Summary'' = []
   \<and> ''---'' @ [nl] @ ''a: b'' @ [nl] @ ''---'' \<noteq> []
   \<and> clean_output nt (''---'' @ [nl] @ ''a: b'' @ [nl] @ ''---'') ttl = []"
proof -
  have a: "clean_output nt ''# Mars'' ''Mars - Summary'' = []"
    by (simp add: clean_output_def strip_def lstrip_def rstrip_def isspace_def
        sub_frontmatter_def drop_heading_def dot_plus_def duplicate_heading_def lower_def
        lower_char_def nl_def rstrip_lines_def)
  have b: "clean_output nt (''---'' @ [nl] @ ''a: b'' @ [nl] @ ''---'') ttl = []"
    by (simp add: clean_output_def strip_def lstrip_def rstrip_def isspace_def
        sub_frontmatter_def drop_heading_def nl_def fm_tail_def rstrip_lines_def)
  from a b show ?thesis by simp
qed

end
